theory Spec2Isabelle
  imports Main "HOL-Library.Word" "HOL-Library.Signed_Division"
begin

unbundle bit_operations_syntax

section \<open>The OctopOS boot-partition file system (file_system.c)\<close>

text \<open>
  A shallow embedding of \<^verbatim>\<open>src/original_C/file_system.c\<close>. The module-level variables of
  the C file become the fields of one record that every function takes and returns.
  \<^verbatim>\<open>uint32_t\<close> is \<open>32 word\<close>, \<^verbatim>\<open>uint8_t\<close> is \<open>8 word\<close>, so sums and comparisons wrap and
  compare as in C. Small \<^verbatim>\<open>int\<close> counters that only hold directory offsets (at most a
  few hundred above 1024) are \<open>nat\<close>; error codes are \<open>int\<close>.

  What the embedding leaves out, and how:
  \<^item> the block device is a directory of files \<^verbatim>\<open>block<n>.txt\<close>; it is a partial map from
    the block number to the bytes the file holds. \<^verbatim>\<open>fopen\<close> for reading fails exactly when
    the file does not exist, \<^verbatim>\<open>fopen\<close> for writing and \<^verbatim>\<open>fwrite\<close> never fail, and \<^verbatim>\<open>fread\<close>
    is short exactly when the file holds fewer than 512 bytes;
  \<^item> \<^verbatim>\<open>malloc\<close> never fails; the file records live in the list \<open>file_list\<close>, in the
    order of the linked list, and a pointer to a record is its index in that list
    (records are never removed, and the records of the list are the only ones that
    outlive a call);
  \<^item> a C string is the list of its bytes before the terminating NUL. The field \<open>filename\<close>
    of a record holds what the array \<^verbatim>\<open>char filename[256]\<close> holds before its first NUL,
    all 256 bytes when it holds none. \<^verbatim>\<open>strcpy\<close> into the array keeps the first 256 bytes
    of the string there; what it writes after the array lands in the fields that follow
    it in \<^verbatim>\<open>struct file\<close>, and the code assigns these fields after each \<^verbatim>\<open>strcpy\<close>.
    \<^verbatim>\<open>strlen\<close>, \<^verbatim>\<open>strcpy\<close> and \<^verbatim>\<open>strcmp\<close> on the array read on into these fields when
    the array holds no NUL (\<open>c_string\<close> below). A string of more than 275 bytes would be
    copied past the end of the structure; the model keeps its first 256 bytes as well;
  \<^item> the 16 and 32 bit fields of the directory are stored by pointer casts; they are
    little-endian here;
  \<^item> \<^verbatim>\<open>printf\<close> diagnostics are dropped.
\<close>

type_synonym byte = "8 word"
type_synonym u16 = "16 word"
type_synonym u32 = "32 word"

subsection \<open>Constants of file_system.h\<close>

abbreviation (input) MAX_NUM_FD :: "'a::numeral" where "MAX_NUM_FD \<equiv> 64"
abbreviation (input) FILE_OPEN_MODE :: u32 where "FILE_OPEN_MODE \<equiv> 0"
abbreviation (input) FILE_OPEN_CREATE_MODE :: u32 where "FILE_OPEN_CREATE_MODE \<equiv> 1"
abbreviation (input) STORAGE_BLOCK_SIZE :: "'a::numeral" where "STORAGE_BLOCK_SIZE \<equiv> 512"
abbreviation (input) DIR_DATA_NUM_BLOCKS :: "'a::numeral" where "DIR_DATA_NUM_BLOCKS \<equiv> 2"
abbreviation (input) DIR_DATA_SIZE :: "'a::numeral" where "DIR_DATA_SIZE \<equiv> 1024"
abbreviation (input) MAX_FILENAME_SIZE :: "'a::numeral" where "MAX_FILENAME_SIZE \<equiv> 256"
abbreviation (input) ERR_INVALID :: int where "ERR_INVALID \<equiv> - 2"
abbreviation (input) ERR_EXIST :: int where "ERR_EXIST \<equiv> - 5"
abbreviation (input) ERR_MEMORY :: int where "ERR_MEMORY \<equiv> - 6"
abbreviation (input) ERR_FOUND :: int where "ERR_FOUND \<equiv> - 7"

subsection \<open>State\<close>

record file_rec =
  filename :: "byte list"
  start_block :: u32
  num_blocks :: u32
  fsize :: u32
  dir_data_off :: nat
  opened :: bool

type_synonym storage = "u32 \<Rightarrow> byte list option"

record fs =
  partition_num_blocks :: u32
  fd_bitmap :: "byte list"
  file_array :: "nat \<Rightarrow> nat option"
  file_list :: "file_rec list"
  dir_data :: "byte list"
  dir_data_ptr :: nat
  blocks :: storage

text \<open>The variables of the C file before the first call: static storage is zeroed.\<close>

definition boot :: "storage \<Rightarrow> fs" where
  "boot dev = \<lparr>partition_num_blocks = 0, fd_bitmap = replicate 8 0,
     file_array = (\<lambda>_. None), file_list = [], dir_data = replicate 1024 0,
     dir_data_ptr = 0, blocks = dev\<rparr>"

definition blank :: storage where
  "blank = (\<lambda>_. None)"

subsection \<open>Descriptor bitmap\<close>

text \<open>The inner loop of \<^verbatim>\<open>get_unused_fd\<close>: the first clear bit of one byte, from bit \<open>j\<close> on.\<close>

function scan_byte :: "byte \<Rightarrow> byte \<Rightarrow> nat \<Rightarrow> (nat \<times> byte) option" where
  "scan_byte b msk j =
     (if j < 8 then
        (if (b OR NOT msk) \<noteq> 0xFF then Some (j, b OR msk)
         else scan_byte b (push_bit 1 msk) (Suc j))
      else None)"
  by pat_completeness auto
termination
  by (relation "measure (\<lambda>(b, msk, j). 8 - j)") auto

declare scan_byte.simps [simp del]

function scan_bitmap :: "byte list \<Rightarrow> nat \<Rightarrow> int \<times> byte list" where
  "scan_bitmap bm i =
     (if i < MAX_NUM_FD div 8 then
        (if bm ! i = 0xFF then scan_bitmap bm (Suc i)
         else (case scan_byte (bm ! i) 1 0 of
                 Some (j, b) \<Rightarrow> (int (i * 8 + j + 1), bm[i := b])
               | None \<Rightarrow> scan_bitmap bm (Suc i)))
      else (ERR_EXIST, bm))"
  by pat_completeness auto
termination
  by (relation "measure (\<lambda>(bm, i). 8 - i)") auto

declare scan_bitmap.simps [simp del]

definition get_unused_fd :: "byte list \<Rightarrow> int \<times> byte list" where
  "get_unused_fd bm = scan_bitmap bm 0"

definition mark_fd_as_unused :: "int \<Rightarrow> byte list \<Rightarrow> byte list" where
  "mark_fd_as_unused fd' bm =
     (let fd = fd' - 1 in
      if fd \<ge> MAX_NUM_FD then bm
      else
        let byte_off = fd sdiv 8;
            bit_off = fd smod 8;
            msk = ((\<lambda>m. push_bit 1 m) ^^ nat bit_off) (1 :: byte)
        in bm[nat byte_off := (bm ! nat byte_off) AND NOT msk])"

subsection \<open>Block I/O\<close>

definition zero_buf :: "byte list" where
  "zero_buf = replicate STORAGE_BLOCK_SIZE 0"

text \<open>\<^verbatim>\<open>memcpy(buf + off, src, length src)\<close> inside the bounds of \<open>buf\<close>.\<close>

definition store_bytes :: "nat \<Rightarrow> byte list \<Rightarrow> byte list \<Rightarrow> byte list" where
  "store_bytes off src buf = take off buf @ src @ drop (off + length src) buf"

definition write_blocks :: "byte list \<Rightarrow> u32 \<Rightarrow> nat \<Rightarrow> storage \<Rightarrow> nat \<times> storage" where
  "write_blocks data start num st =
     (num * STORAGE_BLOCK_SIZE,
      fold (\<lambda>i st'. st'(start + of_nat i \<mapsto>
              take STORAGE_BLOCK_SIZE (drop (i * STORAGE_BLOCK_SIZE) data)))
        [0..<num] st)"

function read_blocks_from :: "u32 \<Rightarrow> nat \<Rightarrow> nat \<Rightarrow> nat \<Rightarrow> byte list \<Rightarrow> storage
    \<Rightarrow> nat \<times> byte list \<times> storage" where
  "read_blocks_from start num i rd data st =
     (if i < num then
        let block_num = start + of_nat i;
            st1 = (case st block_num of
                     None \<Rightarrow> snd (write_blocks zero_buf block_num 1 st)
                   | Some c \<Rightarrow> st)
        in (case st1 block_num of
              None \<Rightarrow> (rd, data, st1)
            | Some c \<Rightarrow>
                let ret = min STORAGE_BLOCK_SIZE (length c);
                    data1 = store_bytes (i * STORAGE_BLOCK_SIZE) (take ret c) data
                in if ret \<noteq> STORAGE_BLOCK_SIZE then (rd + ret, data1, st1)
                   else read_blocks_from start num (Suc i) (rd + ret) data1 st1)
      else (rd, data, st))"
  by pat_completeness auto
termination
  by (relation "measure (\<lambda>(start, num, i, rd, data, st). num - i)") auto

declare read_blocks_from.simps [simp del]

definition read_blocks :: "byte list \<Rightarrow> u32 \<Rightarrow> nat \<Rightarrow> storage \<Rightarrow> nat \<times> byte list \<times> storage" where
  "read_blocks data start num st = read_blocks_from start num 0 0 data st"

text \<open>
  The local \<^verbatim>\<open>uint8_t buf[STORAGE_BLOCK_SIZE]\<close> of \<^verbatim>\<open>read_from_block\<close> and
  \<^verbatim>\<open>write_to_block\<close> is not initialised; each of its bytes is written, by \<^verbatim>\<open>fread\<close> or by
  \<^verbatim>\<open>memcpy\<close>, before it is read, so its first content is immaterial.
\<close>

definition local_buf :: "byte list" where
  "local_buf = replicate STORAGE_BLOCK_SIZE 0"

text \<open>Returns the count and the bytes copied to the caller's buffer.\<close>

definition read_from_block :: "u32 \<Rightarrow> u32 \<Rightarrow> u32 \<Rightarrow> storage \<Rightarrow> (u32 \<times> byte list) \<times> storage" where
  "read_from_block block_num block_offset read_size st =
     (if block_offset + read_size > STORAGE_BLOCK_SIZE then ((0, []), st)
      else
        (case read_blocks local_buf block_num 1 st of (ret, buf, st1) \<Rightarrow>
           if ret \<noteq> STORAGE_BLOCK_SIZE then ((0, []), st1)
           else ((read_size, take (unat read_size) (drop (unat block_offset) buf)), st1)))"

definition write_back :: "byte list \<Rightarrow> byte list \<Rightarrow> u32 \<Rightarrow> u32 \<Rightarrow> u32 \<Rightarrow> storage \<Rightarrow> u32 \<times> storage" where
  "write_back buf data block_num block_offset write_size st =
     (case write_blocks (store_bytes (unat block_offset) (take (unat write_size) data) buf)
             block_num 1 st of
        (ret, st1) \<Rightarrow> (if ret \<ge> unat write_size then write_size else of_nat ret, st1))"

definition write_to_block :: "byte list \<Rightarrow> u32 \<Rightarrow> u32 \<Rightarrow> u32 \<Rightarrow> storage \<Rightarrow> u32 \<times> storage" where
  "write_to_block data block_num block_offset write_size st =
     (if block_offset + write_size > STORAGE_BLOCK_SIZE then (0, st)
      else if \<not> (block_offset = 0 \<and> write_size = STORAGE_BLOCK_SIZE) then
        (case read_blocks local_buf block_num 1 st of (read_ret, buf, st1) \<Rightarrow>
           if read_ret \<noteq> STORAGE_BLOCK_SIZE then (0, st1)
           else write_back buf data block_num block_offset write_size st1)
      else write_back local_buf data block_num block_offset write_size st)"

definition flush_dir_data_to_storage :: "fs \<Rightarrow> fs" where
  "flush_dir_data_to_storage s =
     s\<lparr>blocks := snd (write_blocks (dir_data s) 0 DIR_DATA_NUM_BLOCKS (blocks s))\<rparr>"

definition read_dir_data_from_storage :: "fs \<Rightarrow> fs" where
  "read_dir_data_from_storage s =
     (case read_blocks (dir_data s) 0 DIR_DATA_NUM_BLOCKS (blocks s) of
        (ret, dd, st) \<Rightarrow> s\<lparr>dir_data := dd, blocks := st\<rparr>)"

subsection \<open>Directory encoding\<close>

definition le16 :: "u16 \<Rightarrow> byte list" where
  "le16 w = [ucast w, ucast (drop_bit 8 w)]"

definition le32 :: "u32 \<Rightarrow> byte list" where
  "le32 w = [ucast w, ucast (drop_bit 8 w), ucast (drop_bit 16 w), ucast (drop_bit 24 w)]"

definition rd16 :: "byte list \<Rightarrow> nat \<Rightarrow> u16" where
  "rd16 buf off = ucast (buf ! off) OR push_bit 8 (ucast (buf ! (off + 1)))"

definition rd32 :: "byte list \<Rightarrow> nat \<Rightarrow> u32" where
  "rd32 buf off = ucast (buf ! off) OR push_bit 8 (ucast (buf ! (off + 1)))
     OR push_bit 16 (ucast (buf ! (off + 2))) OR push_bit 24 (ucast (buf ! (off + 3)))"

text \<open>
  The string \<^verbatim>\<open>strcpy\<close> reads out of the directory buffer: the bytes from \<open>off\<close> up to the
  first NUL (a buffer without NUL after \<open>off\<close> gives the bytes up to its end).
\<close>

definition cstring_at :: "byte list \<Rightarrow> nat \<Rightarrow> byte list" where
  "cstring_at buf off = takeWhile (\<lambda>b. b \<noteq> 0) (drop off buf)"

text \<open>
  The string at \<^verbatim>\<open>file->filename\<close>, as \<^verbatim>\<open>strlen\<close>, \<^verbatim>\<open>strcpy\<close> and \<^verbatim>\<open>strcmp\<close> read it. An
  array of 256 bytes without NUL is followed in memory by \<open>start_block\<close>, \<open>num_blocks\<close>,
  \<open>size\<close> and \<open>dir_data_off\<close>, four bytes each, and the string ends at the first zero
  byte of these. (\<open>dir_data_off\<close> is at most 1024 in every record the code builds, so its
  third byte is zero and the string ends there at the latest.)
\<close>

definition struct_tail :: "file_rec \<Rightarrow> byte list" where
  "struct_tail f =
     le32 (start_block f) @ le32 (num_blocks f) @ le32 (fsize f) @ le32 (of_nat (dir_data_off f))"

definition c_string :: "file_rec \<Rightarrow> byte list" where
  "c_string f =
     (if length (filename f) < MAX_FILENAME_SIZE then filename f
      else filename f @ takeWhile (\<lambda>b. b \<noteq> 0) (struct_tail f))"

text \<open>\<^verbatim>\<open>strcpy(file->filename, src)\<close>: what the array holds afterwards.\<close>

definition strcpy_filename :: "byte list \<Rightarrow> byte list" where
  "strcpy_filename src = take MAX_FILENAME_SIZE src"

definition update_file_in_directory :: "file_rec \<Rightarrow> byte list \<Rightarrow> int \<times> byte list" where
  "update_file_in_directory f dd =
     (let off = dir_data_off f;
          filename_size = length (c_string f)
      in if filename_size > MAX_FILENAME_SIZE then (ERR_INVALID, dd)
         else if off + filename_size + 15 > DIR_DATA_SIZE then (ERR_MEMORY, dd)
         else
           let dd1 = store_bytes off (le16 (of_nat filename_size)) dd;
               off1 = off + 2;
               dd2 = store_bytes off1 (c_string f @ [0]) dd1;
               off2 = off1 + (filename_size + 1);
               dd3 = store_bytes off2 (le32 (start_block f)) dd2;
               off3 = off2 + 4;
               dd4 = store_bytes off3 (le32 (num_blocks f)) dd3;
               off4 = off3 + 4;
               dd5 = store_bytes off4 (le32 (fsize f)) dd4
           in (0, dd5))"

text \<open>
  \<^verbatim>\<open>add_file_to_directory\<close> returns the error code, the record with its \<open>dir_data_off\<close>
  set, and the state.
\<close>

definition add_file_to_directory :: "file_rec \<Rightarrow> fs \<Rightarrow> int \<times> file_rec \<times> fs" where
  "add_file_to_directory f0 s =
     (let f = f0\<lparr>dir_data_off := dir_data_ptr s\<rparr>
      in (case update_file_in_directory f (dir_data s) of (ret, dd) \<Rightarrow>
            if ret \<noteq> 0 then (ret, f, s)
            else
              let ptr = dir_data_ptr s + (length (c_string f) + 15);
                  dd1 = store_bytes 4 (le16 (rd16 dd 4 + 1)) dd
              in (0, f, flush_dir_data_to_storage (s\<lparr>dir_data := dd1, dir_data_ptr := ptr\<rparr>))))"

text \<open>
  The loop of \<^verbatim>\<open>initialize_file_system\<close> over the stored records: \<open>n\<close> is the number of
  iterations left, \<open>ptr\<close> is \<^verbatim>\<open>dir_data_ptr\<close>.
\<close>

fun load_files :: "nat \<Rightarrow> byte list \<Rightarrow> nat \<Rightarrow> file_rec list \<Rightarrow> nat \<times> file_rec list" where
  "load_files 0 dd ptr fl = (ptr, fl)"
| "load_files (Suc n) dd ptr fl =
     (let off = ptr in
      if ptr + 2 > DIR_DATA_SIZE then (ptr, fl)
      else
        let filename_size = unat (rd16 dd ptr) in
        if ptr + filename_size + 15 > DIR_DATA_SIZE then (ptr, fl)
        else
          let ptr1 = ptr + 2 in
          if filename_size > MAX_FILENAME_SIZE then (ptr1, fl)
          else
            let name = cstring_at dd ptr1;
                ptr2 = ptr1 + filename_size + 1;
                f = \<lparr>filename = strcpy_filename name, start_block = rd32 dd ptr2,
                     num_blocks = rd32 dd (ptr2 + 4), fsize = rd32 dd (ptr2 + 8),
                     dir_data_off = off, opened = False\<rparr>
            in load_files n dd (ptr2 + 12) (fl @ [f]))"

subsection \<open>Allocation\<close>

text \<open>The search loop of \<^verbatim>\<open>expand_existing_file\<close>; it breaks at the first blocking record.\<close>

fun tail_blocked :: "file_rec list \<Rightarrow> u32 \<Rightarrow> u32 \<Rightarrow> u32 \<Rightarrow> bool" where
  "tail_blocked [] sb nb needed_blocks = False"
| "tail_blocked (n # ns) sb nb needed_blocks =
     (if start_block n \<ge> sb + nb \<and> start_block n < sb + nb + needed_blocks then True
      else tail_blocked ns sb nb needed_blocks)"

definition zero_out :: "u32 \<Rightarrow> u32 \<Rightarrow> storage \<Rightarrow> storage" where
  "zero_out first needed_blocks st =
     fold (\<lambda>i st'. snd (write_blocks zero_buf (first + of_nat i) 1 st'))
       [0..<unat needed_blocks] st"

definition expand_existing_file :: "nat \<Rightarrow> u32 \<Rightarrow> fs \<Rightarrow> int \<times> fs" where
  "expand_existing_file idx needed_blocks s =
     (let f = file_list s ! idx;
          found = \<not> tail_blocked (file_list s) (start_block f) (num_blocks f) needed_blocks
      in if found then
           (if start_block f + num_blocks f + needed_blocks \<ge> partition_num_blocks s
            then (ERR_FOUND, s)
            else (0, s\<lparr>blocks := zero_out (start_block f + num_blocks f) needed_blocks (blocks s),
                       file_list := (file_list s)
                          [idx := f\<lparr>num_blocks := num_blocks f + needed_blocks\<rparr>]\<rparr>))
         else (ERR_FOUND, s))"

text \<open>The loop of \<^verbatim>\<open>expand_empty_file\<close> over the list, \<open>sb\<close> being \<^verbatim>\<open>start_block\<close>.\<close>

fun last_end :: "file_rec list \<Rightarrow> u32 \<Rightarrow> u32" where
  "last_end [] sb = sb"
| "last_end (n # ns) sb =
     last_end ns (if start_block n \<ge> sb then start_block n + num_blocks n else sb)"

definition expand_empty_file :: "nat \<Rightarrow> u32 \<Rightarrow> fs \<Rightarrow> int \<times> fs" where
  "expand_empty_file idx needed_blocks s =
     (let sb = last_end (file_list s) DIR_DATA_NUM_BLOCKS
      in if sb + needed_blocks \<ge> partition_num_blocks s then (ERR_FOUND, s)
         else (0, s\<lparr>blocks := zero_out sb needed_blocks (blocks s),
                    file_list := (file_list s)
                       [idx := (file_list s ! idx)\<lparr>start_block := sb, num_blocks := needed_blocks\<rparr>]\<rparr>))"

text \<open>The code from the label \<^verbatim>\<open>update\<close> of \<^verbatim>\<open>expand_file_size\<close> on.\<close>

definition update_size :: "nat \<Rightarrow> u32 \<Rightarrow> fs \<Rightarrow> int \<times> fs" where
  "update_size idx sz s =
     (let f = (file_list s ! idx)\<lparr>fsize := sz\<rparr>;
          s1 = s\<lparr>file_list := (file_list s)[idx := f]\<rparr>
      in (case update_file_in_directory f (dir_data s1) of (ret, dd) \<Rightarrow>
            (ret, flush_dir_data_to_storage (s1\<lparr>dir_data := dd\<rparr>))))"

definition expand_file_size :: "nat \<Rightarrow> u32 \<Rightarrow> fs \<Rightarrow> int \<times> fs" where
  "expand_file_size idx sz s =
     (let f = file_list s ! idx in
      if fsize f \<ge> sz then (0, s)
      else
        let empty_file = (fsize f = 0);
            needed_size = (if fsize f = 0 then sz else sz - fsize f);
            leftover = STORAGE_BLOCK_SIZE - (fsize f mod STORAGE_BLOCK_SIZE)
        in if leftover \<noteq> STORAGE_BLOCK_SIZE \<and> leftover \<ge> needed_size then update_size idx sz s
           else
             let nb = needed_size div STORAGE_BLOCK_SIZE;
                 needed_blocks = (if needed_size mod STORAGE_BLOCK_SIZE \<noteq> 0 then nb + 1 else nb)
             in (case (if empty_file then expand_empty_file idx needed_blocks s
                       else expand_existing_file idx needed_blocks s) of
                   (ret, s1) \<Rightarrow> if ret = 0 then update_size idx sz s1 else (ret, s1)))"

subsection \<open>The API\<close>

text \<open>
  The search loop of \<^verbatim>\<open>file_system_open_file\<close>: \<open>None\<close> is the early return at a record
  that is already open, \<open>Some found\<close> is the value of the variable \<^verbatim>\<open>file\<close> after the
  loop, the last record with the name. \<open>name\<close> is the string the caller passes.
\<close>

fun find_file :: "file_rec list \<Rightarrow> byte list \<Rightarrow> nat \<Rightarrow> nat option \<Rightarrow> nat option option" where
  "find_file [] name i found = Some found"
| "find_file (n # ns) name i found =
     (if c_string n = name then
        (if opened n then None else find_file ns name (Suc i) (Some i))
      else find_file ns name (Suc i) found)"

text \<open>The part of \<^verbatim>\<open>file_system_open_file\<close> under \<^verbatim>\<open>if (file)\<close>.\<close>

definition install_fd :: "nat \<Rightarrow> fs \<Rightarrow> u32 \<times> fs" where
  "install_fd idx s =
     (case get_unused_fd (fd_bitmap s) of (ret, bm) \<Rightarrow>
        let s1 = s\<lparr>fd_bitmap := bm\<rparr> in
        if ret < 0 then (0, s1)
        else
          let fd = (word_of_int ret :: u32) in
          if fd = 0 \<or> fd \<ge> MAX_NUM_FD then (0, s1)
          else if file_array s1 (unat fd) \<noteq> None then (0, s1)
          else (fd, s1\<lparr>file_array := (file_array s1)(unat fd \<mapsto> idx),
                        file_list := (file_list s1)[idx := (file_list s1 ! idx)\<lparr>opened := True\<rparr>]\<rparr>))"

text \<open>
  The record that \<^verbatim>\<open>file_system_open_file\<close> creates comes from \<^verbatim>\<open>malloc\<close> and its field
  \<^verbatim>\<open>opened\<close> is not assigned before the descriptor is installed: \<open>junk\<close> is the value the
  memory happens to hold. \<open>new_file\<close> is the record after \<^verbatim>\<open>strcpy\<close> and the three
  assignments that follow it.
\<close>

definition new_file :: "bool \<Rightarrow> byte list \<Rightarrow> file_rec" where
  "new_file junk name =
     \<lparr>filename = strcpy_filename name, start_block = 0, num_blocks = 0, fsize = 0,
      dir_data_off = 0, opened = junk\<rparr>"

definition file_system_open_file :: "bool \<Rightarrow> byte list \<Rightarrow> u32 \<Rightarrow> fs \<Rightarrow> u32 \<times> fs" where
  "file_system_open_file junk name mode s =
     (if \<not> (mode = FILE_OPEN_MODE \<or> mode = FILE_OPEN_CREATE_MODE) then (0, s)
      else
        (case find_file (file_list s) name 0 None of
           None \<Rightarrow> (0, s)
         | Some (Some idx) \<Rightarrow> install_fd idx s
         | Some None \<Rightarrow>
             if mode = FILE_OPEN_CREATE_MODE then
               (case add_file_to_directory (new_file junk name) s of
                  (ret, f, s1) \<Rightarrow>
                    if ret \<noteq> 0 then (0, s)
                    else install_fd (length (file_list s1))
                           (s1\<lparr>file_list := file_list s1 @ [f]\<rparr>))
             else (0, s)))"

partial_function (option) write_loop :: "byte list \<Rightarrow> u32 \<Rightarrow> u32 \<Rightarrow> u32 \<Rightarrow> u32 \<Rightarrow> u32 \<Rightarrow> u32
    \<Rightarrow> storage \<Rightarrow> (u32 \<times> storage) option" where
  "write_loop data sb sz block_num block_offset written_size next_write_size st =
     (if written_size < sz then
        (case write_to_block (drop (unat written_size) data) (sb + block_num)
                block_offset next_write_size st of
           (ret, st1) \<Rightarrow>
             if ret \<noteq> next_write_size then Some (written_size + ret, st1)
             else
               let written_size1 = written_size + next_write_size;
                   block_num1 = block_num + 1;
                   block_offset1 = 0;
                   next_write_size1 =
                     (if sz - written_size1 \<ge> STORAGE_BLOCK_SIZE
                      then STORAGE_BLOCK_SIZE - block_offset1 else sz - written_size1)
               in write_loop data sb sz block_num1 block_offset1 written_size1
                    next_write_size1 st1)
      else Some (written_size, st))"

declare write_loop.simps [code]

text \<open>
  The part of \<^verbatim>\<open>file_system_write_to_file\<close> after the attempt to expand the file: \<open>idx\<close>
  is the record \<^verbatim>\<open>file\<close> points to.
\<close>

definition write_data :: "nat \<Rightarrow> byte list \<Rightarrow> u32 \<Rightarrow> u32 \<Rightarrow> fs \<Rightarrow> (u32 \<times> fs) option" where
  "write_data idx data sz offset s1 =
     (let f = file_list s1 ! idx
      in if offset \<ge> fsize f then Some (0, s1)
         else
           let sz1 = (if fsize f < offset + sz then fsize f - offset else sz);
               block_num = offset div STORAGE_BLOCK_SIZE;
               block_offset = offset mod STORAGE_BLOCK_SIZE;
               next_write_size = STORAGE_BLOCK_SIZE - block_offset;
               next_write_size1 = (if next_write_size > sz1 then sz1 else next_write_size)
           in (case write_loop data (start_block f) sz1 block_num block_offset 0
                      next_write_size1 (blocks s1) of
                 None \<Rightarrow> None
               | Some (written_size, st) \<Rightarrow> Some (written_size, s1\<lparr>blocks := st\<rparr>)))"

definition file_system_write_to_file :: "u32 \<Rightarrow> byte list \<Rightarrow> u32 \<Rightarrow> u32 \<Rightarrow> fs \<Rightarrow> (u32 \<times> fs) option" where
  "file_system_write_to_file fd data sz offset s =
     (if fd = 0 \<or> fd \<ge> MAX_NUM_FD then Some (0, s)
      else
        (case file_array s (unat fd) of
           None \<Rightarrow> Some (0, s)
         | Some idx \<Rightarrow>
             if \<not> opened (file_list s ! idx) then Some (0, s)
             else if fsize (file_list s ! idx) < offset + sz then
               (if offset > fsize (file_list s ! idx) then Some (0, s)
                else write_data idx data sz offset (snd (expand_file_size idx (offset + sz) s)))
             else write_data idx data sz offset s))"

text \<open>The read loop also threads the bytes copied so far to the caller's buffer.\<close>

partial_function (option) read_loop :: "byte list \<Rightarrow> u32 \<Rightarrow> u32 \<Rightarrow> u32 \<Rightarrow> u32 \<Rightarrow> u32 \<Rightarrow> u32
    \<Rightarrow> storage \<Rightarrow> (u32 \<times> byte list \<times> storage) option" where
  "read_loop data sb sz block_num block_offset read_size next_read_size st =
     (if read_size < sz then
        (case read_from_block (sb + block_num) block_offset next_read_size st of
           ((ret, bytes), st1) \<Rightarrow>
             if ret \<noteq> next_read_size then Some (read_size + ret, data @ bytes, st1)
             else
               let read_size1 = read_size + next_read_size;
                   block_num1 = block_num + 1;
                   block_offset1 = 0;
                   next_read_size1 =
                     (if sz - read_size1 \<ge> STORAGE_BLOCK_SIZE
                      then STORAGE_BLOCK_SIZE - block_offset1 else sz - read_size1)
               in read_loop (data @ bytes) sb sz block_num1 block_offset1 read_size1
                    next_read_size1 st1)
      else Some (read_size, data, st))"

declare read_loop.simps [code]

definition file_system_read_from_file :: "u32 \<Rightarrow> u32 \<Rightarrow> u32 \<Rightarrow> fs \<Rightarrow> (u32 \<times> byte list \<times> fs) option" where
  "file_system_read_from_file fd sz offset s =
     (if fd = 0 \<or> fd \<ge> MAX_NUM_FD then Some (0, [], s)
      else
        (case file_array s (unat fd) of
           None \<Rightarrow> Some (0, [], s)
         | Some idx \<Rightarrow>
             let f = file_list s ! idx in
             if \<not> opened f then Some (0, [], s)
             else if offset \<ge> fsize f then Some (0, [], s)
             else
               let sz1 = (if fsize f < offset + sz then fsize f - offset else sz);
                   block_num = offset div STORAGE_BLOCK_SIZE;
                   block_offset = offset mod STORAGE_BLOCK_SIZE;
                   next_read_size = STORAGE_BLOCK_SIZE - block_offset;
                   next_read_size1 = (if next_read_size > sz1 then sz1 else next_read_size)
               in (case read_loop [] (start_block f) sz1 block_num block_offset 0
                          next_read_size1 (blocks s) of
                     None \<Rightarrow> None
                   | Some (read_size, bytes, st) \<Rightarrow> Some (read_size, bytes, s\<lparr>blocks := st\<rparr>))))"

definition file_system_close_file :: "u32 \<Rightarrow> fs \<Rightarrow> int \<times> fs" where
  "file_system_close_file fd s =
     (if fd = 0 \<or> fd \<ge> MAX_NUM_FD then (ERR_INVALID, s)
      else
        (case file_array s (unat fd) of
           None \<Rightarrow> (ERR_INVALID, s)
         | Some idx \<Rightarrow>
             if \<not> opened (file_list s ! idx) then (ERR_INVALID, s)
             else (0, s\<lparr>file_list := (file_list s)[idx := (file_list s ! idx)\<lparr>opened := False\<rparr>],
                        file_array := (file_array s)(unat fd := None),
                        fd_bitmap := mark_fd_as_unused (sint fd) (fd_bitmap s)\<rparr>)))"

definition initialize_file_system :: "u32 \<Rightarrow> fs \<Rightarrow> fs" where
  "initialize_file_system n s =
     (let bm = fold (\<lambda>i b. b[i := 0]) [1..<MAX_NUM_FD div 8] ((fd_bitmap s)[0 := 1]);
          s1 = read_dir_data_from_storage
                 (s\<lparr>file_list := [], dir_data_ptr := 0, partition_num_blocks := n,
                    fd_bitmap := bm\<rparr>);
          dd = dir_data s1;
          s2 = (if dd ! 0 = 0x24 \<and> dd ! 1 = 0x25 \<and> dd ! 2 = 0x5E \<and> dd ! 3 = 0x26 then
                  (case load_files (unat (rd16 dd 4)) dd 6 [] of
                     (ptr, fl) \<Rightarrow> s1\<lparr>dir_data_ptr := ptr, file_list := fl\<rparr>)
                else
                  flush_dir_data_to_storage
                    (s1\<lparr>dir_data := dd[0 := 0x24, 1 := 0x25, 2 := 0x5E, 3 := 0x26, 4 := 0, 5 := 0],
                        dir_data_ptr := 6\<rparr>))
      in s2\<lparr>file_array := (\<lambda>_. None)\<rparr>)"

definition close_file_system :: "fs \<Rightarrow> fs" where
  "close_file_system s = flush_dir_data_to_storage s"

subsection \<open>Notions used to state the properties\<close>

text \<open>
  The record a descriptor refers to: the descriptor passes the range check of the API
  functions, its slot of \<open>file_array\<close> is not \<^verbatim>\<open>NULL\<close> and points to a record of the list.
\<close>

definition fd_file :: "fs \<Rightarrow> u32 \<Rightarrow> file_rec option" where
  "fd_file s fd =
     (if fd = 0 \<or> fd \<ge> MAX_NUM_FD then None
      else (case file_array s (unat fd) of None \<Rightarrow> None
            | Some idx \<Rightarrow> if idx < length (file_list s) then Some (file_list s ! idx) else None))"

text \<open>
  Bit \<open>k\<close> of the bitmap, counting from the least significant bit of byte 0, and the
  bitmap with bit \<open>k\<close> set. \<^verbatim>\<open>get_unused_fd\<close> returns \<open>k + 1\<close> for the bit \<open>k\<close> it sets and
  \<^verbatim>\<open>mark_fd_as_unused\<close> clears bit \<open>fd - 1\<close>: the bit of descriptor \<open>d\<close> is bit \<open>d - 1\<close>.
\<close>

definition fd_bit :: "byte list \<Rightarrow> nat \<Rightarrow> bool" where
  "fd_bit bm k = bit (bm ! (k div 8)) (k mod 8)"

definition set_fd_bit :: "byte list \<Rightarrow> nat \<Rightarrow> byte list" where
  "set_fd_bit bm k = bm[k div 8 := (bm ! (k div 8)) OR push_bit (k mod 8) 1]"

definition desc_bit :: "fs \<Rightarrow> nat \<Rightarrow> bool" where
  "desc_bit s d = fd_bit (fd_bitmap s) (d - 1)"

text \<open>
  A file name passed to open is a C string that fits \<^verbatim>\<open>char filename[256]\<close> with its
  terminator; the buffer passed to write holds at least \<open>sz\<close> bytes.
\<close>

definition valid_name :: "byte list \<Rightarrow> bool" where
  "valid_name name = (0 \<notin> set name \<and> length name < MAX_FILENAME_SIZE)"

text \<open>One call of open, write, read or close.\<close>

inductive step :: "fs \<Rightarrow> fs \<Rightarrow> bool" where
  step_open: "valid_name name \<Longrightarrow> file_system_open_file junk name mode s = (fd, s') \<Longrightarrow> step s s'"
| step_write: "unat sz \<le> length data \<Longrightarrow>
     file_system_write_to_file fd data sz offset s = Some (r, s') \<Longrightarrow> step s s'"
| step_read: "file_system_read_from_file fd sz offset s = Some (r, bytes, s') \<Longrightarrow> step s s'"
| step_close: "file_system_close_file fd s = (e, s') \<Longrightarrow> step s s'"

text \<open>
  The states reachable from \<^verbatim>\<open>initialize_file_system\<close>, called on the block device \<open>dev\<close>,
  by any sequence of open, write, read and close.
\<close>

definition reachable :: "storage \<Rightarrow> fs \<Rightarrow> bool" where
  "reachable dev s = (\<exists>n. step\<^sup>*\<^sup>* (initialize_file_system n (boot dev)) s)"

text \<open>
  The invariant of the descriptor table: the bitmap has its eight bytes and bit 0 set; a
  slot of \<open>file_array\<close> in use has an index from 2 to 63, points into the list to a record
  that is open, and its bit is set; no two slots point to the same record.
\<close>

definition fd_inv :: "fs \<Rightarrow> bool" where
  "fd_inv s =
     (length (fd_bitmap s) = 8 \<and> fd_bit (fd_bitmap s) 0 \<and>
      (\<forall>d idx. file_array s d = Some idx \<longrightarrow>
         2 \<le> d \<and> d < 64 \<and> idx < length (file_list s) \<and> opened (file_list s ! idx) \<and>
         fd_bit (fd_bitmap s) (d - 1)) \<and>
      (\<forall>d d' idx. file_array s d = Some idx \<longrightarrow> file_array s d' = Some idx \<longrightarrow> d = d'))"

text \<open>
  The call of open gets as far as \<^verbatim>\<open>get_unused_fd\<close>: the mode is valid and the search
  finds a record that is not open, or finds none and the record is created.
\<close>

definition open_resolves :: "bool \<Rightarrow> byte list \<Rightarrow> u32 \<Rightarrow> fs \<Rightarrow> bool" where
  "open_resolves junk name mode s =
     ((mode = FILE_OPEN_MODE \<or> mode = FILE_OPEN_CREATE_MODE) \<and>
      (case find_file (file_list s) name 0 None of
         None \<Rightarrow> False
       | Some (Some idx) \<Rightarrow> True
       | Some None \<Rightarrow> mode = FILE_OPEN_CREATE_MODE \<and>
           fst (add_file_to_directory (new_file junk name) s) = 0))"

text \<open>
  The blocks of a record, as natural numbers: its extent is the range from \<open>start_block\<close>
  up to, and without, \<open>start_block + num_blocks\<close>.
\<close>

definition extent_end :: "file_rec \<Rightarrow> nat" where
  "extent_end f = unat (start_block f) + unat (num_blocks f)"

definition extent :: "file_rec \<Rightarrow> nat set" where
  "extent f = {unat (start_block f) ..< extent_end f}"

text \<open>Some other record of the list starts in the \<open>needed\<close> blocks after record \<open>idx\<close>.\<close>

definition other_in_tail :: "file_rec list \<Rightarrow> nat \<Rightarrow> nat \<Rightarrow> bool" where
  "other_in_tail fl idx needed =
     (\<exists>j<length fl. j \<noteq> idx \<and> extent_end (fl ! idx) \<le> unat (start_block (fl ! j)) \<and>
        unat (start_block (fl ! j)) < extent_end (fl ! idx) + needed)"

text \<open>
  The invariants 4 and 5 of the data model on a file list: the extents of two different
  records that own blocks are disjoint; a record that owns blocks starts in the data area
  and a record that owns none has start block 0; no extent runs over the 32-bit range.
\<close>

definition disjoint_extents :: "file_rec list \<Rightarrow> bool" where
  "disjoint_extents fl =
     (\<forall>i<length fl. \<forall>j<length fl. i \<noteq> j \<longrightarrow> num_blocks (fl ! i) \<noteq> 0 \<longrightarrow>
        num_blocks (fl ! j) \<noteq> 0 \<longrightarrow> extent (fl ! i) \<inter> extent (fl ! j) = {})"

definition placed :: "file_rec \<Rightarrow> bool" where
  "placed f =
     ((num_blocks f = 0 \<longrightarrow> start_block f = 0) \<and>
      (num_blocks f \<noteq> 0 \<longrightarrow> DIR_DATA_NUM_BLOCKS \<le> unat (start_block f)) \<and>
      extent_end f < 2 ^ 32)"

text \<open>The first block after the directory and after every extent of the list.\<close>

definition max_end :: "file_rec list \<Rightarrow> nat" where
  "max_end fl = Max (insert DIR_DATA_NUM_BLOCKS (extent_end ` set fl))"

text \<open>
  The directory. A record takes \<open>filename_size + 15\<close> bytes of the buffer; \<open>layout off fl\<close>
  says that the records of \<open>fl\<close> lie one after the other from offset \<open>off\<close> on, each at
  its \<open>dir_data_off\<close>, and \<open>dir_end off fl\<close> is the offset after the last one.
  \<open>record_bytes\<close> is the encoding of a record as the table of the specification gives it.
  \<open>serialize_all\<close> writes every record of a list with \<^verbatim>\<open>update_file_in_directory\<close>.
\<close>

definition record_size :: "file_rec \<Rightarrow> nat" where
  "record_size f = length (filename f) + 15"

fun layout :: "nat \<Rightarrow> file_rec list \<Rightarrow> bool" where
  "layout off [] = True"
| "layout off (f # fl) = (dir_data_off f = off \<and> layout (off + record_size f) fl)"

fun dir_end :: "nat \<Rightarrow> file_rec list \<Rightarrow> nat" where
  "dir_end off [] = off"
| "dir_end off (f # fl) = dir_end (off + record_size f) fl"

definition record_bytes :: "file_rec \<Rightarrow> byte list" where
  "record_bytes f =
     le16 (of_nat (length (filename f))) @ filename f @ [0] @
     le32 (start_block f) @ le32 (num_blocks f) @ le32 (fsize f)"

definition encoded :: "byte list \<Rightarrow> file_rec \<Rightarrow> bool" where
  "encoded dd f = (take (record_size f) (drop (dir_data_off f) dd) = record_bytes f)"


definition has_signature :: "byte list \<Rightarrow> bool" where
  "has_signature dd = (dd ! 0 = 0x24 \<and> dd ! 1 = 0x25 \<and> dd ! 2 = 0x5E \<and> dd ! 3 = 0x26)"

definition closed :: "file_rec \<Rightarrow> file_rec" where
  "closed f = f\<lparr>opened := False\<rparr>"


text \<open>
  The invariant of the file list. A record that owns blocks has a size greater than 0
  that fits its blocks, and its blocks are at most twice what the size needs
  (\<^verbatim>\<open>expand_existing_file\<close> counts the blocks for the added bytes without the room left in
  the last block). The extents are disjoint, no extent ends after block 2 plus the sum of
  all block counts, and the records lie in the directory buffer.
\<close>

definition file_ok :: "file_rec \<Rightarrow> bool" where
  "file_ok f =
     (placed f \<and> (num_blocks f = 0 \<longrightarrow> fsize f = 0) \<and>
      (num_blocks f \<noteq> 0 \<longrightarrow>
         0 < unat (fsize f) \<and> unat (fsize f) \<le> 512 * unat (num_blocks f) \<and>
         512 * unat (num_blocks f) \<le> 2 * unat (fsize f) + 511))"




text \<open>
  The invariant of the directory: the buffer has its 1024 bytes, the signature and the
  number of records in its count field; every record of the list is encoded at its offset
  and its name fits the array with its terminator; blocks 0 and 1 of the device hold the
  buffer; every block file of the device holds 512 bytes.
\<close>

definition dir_inv :: "fs \<Rightarrow> bool" where
  "dir_inv s =
     (length (dir_data s) = DIR_DATA_SIZE \<and> has_signature (dir_data s) \<and>
      rd16 (dir_data s) 4 = of_nat (length (file_list s)) \<and>
      (\<forall>f\<in>set (file_list s). encoded (dir_data s) f \<and> valid_name (filename f)) \<and>
      blocks s 0 = Some (take STORAGE_BLOCK_SIZE (dir_data s)) \<and>
      blocks s 1 = Some (drop STORAGE_BLOCK_SIZE (dir_data s)) \<and>
      (\<forall>b c. blocks s b = Some c \<longrightarrow> length c = STORAGE_BLOCK_SIZE))"

text \<open>
  The life of a device. Besides the calls of open, write, read and close, the file system
  is shut down with \<^verbatim>\<open>close_file_system\<close>, initialised again by the same process (as
  \<^verbatim>\<open>fs_test.c\<close> does after the shutdown), with any partition size, or the process ends,
  at any moment, and a new one, whose variables are zeroed, calls
  \<^verbatim>\<open>initialize_file_system\<close> on the device as it was left. \<open>in_service s\<close>: the state \<open>s\<close> is
  reached in this way from the first initialisation on a blank device.
\<close>

inductive event :: "fs \<Rightarrow> fs \<Rightarrow> bool" where
  event_call: "step s s' \<Longrightarrow> event s s'"
| event_shutdown: "event s (close_file_system s)"
| event_initialize: "event s (initialize_file_system n s)"
| event_restart: "event s (initialize_file_system n (boot (blocks s)))"

definition in_service :: "fs \<Rightarrow> bool" where
  "in_service s = (\<exists>n. event\<^sup>*\<^sup>* (initialize_file_system n (boot blank)) s)"

text \<open>Small states for the examples below.\<close>

definition fresh :: fs where
  "fresh = initialize_file_system 390 (boot blank)"

definition after_open :: fs where
  "after_open = snd (file_system_open_file False [0x61] FILE_OPEN_CREATE_MODE fresh)"

definition last_block :: fs where
  "last_block = (boot blank)\<lparr>file_list := [\<lparr>filename = [0x61], start_block = 2, num_blocks = 1,
      fsize = 512, dir_data_off = 6, opened = True\<rparr>], file_array := (\<lambda>_. None)(2 \<mapsto> 0),
      fd_bitmap := [3, 0, 0, 0, 0, 0, 0, 0], partition_num_blocks := 4, dir_data_ptr := 22\<rparr>"

definition two_files :: fs where
  "two_files = (boot blank)\<lparr>file_list :=
      [\<lparr>filename = [0x61], start_block = 0, num_blocks = 0, fsize = 0, dir_data_off = 6,
        opened = True\<rparr>,
       \<lparr>filename = [0x62], start_block = 2, num_blocks = 3, fsize = 1500, dir_data_off = 22,
        opened = False\<rparr>],
      file_array := (\<lambda>_. None)(2 \<mapsto> 0),
      fd_bitmap := [3, 0, 0, 0, 0, 0, 0, 0], partition_num_blocks := 390, dir_data_ptr := 38\<rparr>"





definition exhausted :: fs where
  "exhausted = (boot blank)\<lparr>file_list := [\<lparr>filename = [0x61], start_block = 2, num_blocks = 1,
      fsize = 3, dir_data_off = 6, opened = False\<rparr>],
      fd_bitmap := [0xFF, 0xFF, 0xFF, 0xFF, 0xFF, 0xFF, 0xFF, 0x7F],
      partition_num_blocks := 390, dir_data_ptr := 22\<rparr>"


definition one_file :: fs where
  "one_file = (boot blank)\<lparr>file_list := [\<lparr>filename = [0x61], start_block = 2, num_blocks = 1,
      fsize = 3, dir_data_off = 6, opened = True\<rparr>], file_array := (\<lambda>_. None)(2 \<mapsto> 0),
      fd_bitmap := [3, 0, 0, 0, 0, 0, 0, 0], partition_num_blocks := 390, dir_data_ptr := 22\<rparr>"






section \<open>Properties\<close>

subsection \<open>Strings in the array of a record\<close>


lemma strcpy_filename_short: "length name \<le> 256 \<Longrightarrow> strcpy_filename name = name"
  by (simp add: strcpy_filename_def)




lemma c_string_valid: "valid_name (filename f) \<Longrightarrow> c_string f = filename f"
  by (simp add: c_string_def valid_name_def)

subsection \<open>Writes beyond the end of a file\<close>

text \<open>
  C5. For a descriptor that refers to an open record, a write whose offset is greater than
  the size of the file returns 0 and changes nothing: the record, the data blocks and the
  rest of the state are the ones before the call.
\<close>

theorem write_beyond_end_rejected:
  assumes "fd_file s fd = Some f" and "opened f" and "offset > fsize f"
  shows "file_system_write_to_file fd data sz offset s = Some (0, s)"
proof -
  from assms(1) obtain idx where fd: "\<not> (fd = 0 \<or> fd \<ge> MAX_NUM_FD)"
    and fa: "file_array s (unat fd) = Some idx" and f: "file_list s ! idx = f"
    by (auto simp add: fd_file_def split: if_splits option.splits)
  show ?thesis
  proof (cases "fsize f < offset + sz")
    case True
    then show ?thesis using fd fa f assms(2,3)
      by (simp add: file_system_write_to_file_def)
  next
    case False
    moreover from assms(3) have "offset \<ge> fsize f" by simp
    ultimately show ?thesis using fd fa f assms(2)
      by (simp add: file_system_write_to_file_def write_data_def Let_def)
  qed
qed

theorem write_beyond_end_rejected_witness:
  "file_system_write_to_file 2 [0x41] 1 4 one_file = Some (0, one_file)"
proof -
  let ?f = "\<lparr>filename = [0x61], start_block = 2, num_blocks = 1,
      fsize = 3, dir_data_off = 6, opened = True\<rparr>"
  have 1: "fd_file one_file 2 = Some ?f" by (simp add: fd_file_def one_file_def boot_def)
  have 2: "opened ?f" by simp
  have 3: "4 > fsize ?f" by simp
  show ?thesis using write_beyond_end_rejected[OF 1 2 3] .
qed

subsection \<open>A create that does not fit the directory\<close>






subsection \<open>The descriptor table\<close>

lemma or_not_bit: "j < 8 \<Longrightarrow> ((b::byte) OR NOT (push_bit j 1) \<noteq> 0xFF) = (\<not> bit b j)"
proof -
  assume j: "j < 8"
  have ff: "(0xFF::byte) = - 1" by simp
  show ?thesis
    unfolding ff using j
    by (auto simp add: bit_eq_iff[where ?'a = byte] bit_simps)
qed

lemma scan_byte_Some:
  "scan_byte b msk j = Some (k, b') \<Longrightarrow> msk = push_bit j 1 \<Longrightarrow>
     j \<le> k \<and> k < 8 \<and> \<not> bit b k \<and> b' = b OR push_bit k 1 \<and> (\<forall>i. j \<le> i \<and> i < k \<longrightarrow> bit b i)"
proof (induction b msk j rule: scan_byte.induct)
  case (1 b msk j)
  show ?case
  proof (cases "j < 8 \<and> \<not> (b OR NOT msk) \<noteq> 0xFF")
    case True
    then have "scan_byte b (push_bit 1 msk) (Suc j) = Some (k, b')"
      using "1.prems"(1) by (simp add: scan_byte.simps[of b msk j])
    moreover have "push_bit 1 msk = (push_bit (Suc j) 1 :: byte)"
      using "1.prems"(2) by (simp add: push_bit_eq_mult)
    ultimately have ih: "Suc j \<le> k \<and> k < 8 \<and> \<not> bit b k \<and> b' = b OR push_bit k 1 \<and> (\<forall>i. Suc j \<le> i \<and> i < k \<longrightarrow> bit b i)"
      using "1.IH" True by blast
    have "bit b j" using True "1.prems"(2) or_not_bit[of j b] by simp
    with ih show ?thesis by (metis Suc_leI le_neq_implies_less Suc_leD)
  next
    case False
    have unf: "scan_byte b msk j = (if j < 8 then (if (b OR NOT msk) \<noteq> 0xFF then Some (j, b OR msk)
         else scan_byte b (push_bit 1 msk) (Suc j)) else None)"
      by (rule scan_byte.simps)
    from False "1.prems"(1) have j8: "j < 8" and nf: "(b OR NOT msk) \<noteq> 0xFF" and kj: "k = j" and b': "b' = b OR msk"
      unfolding unf by (auto split: if_splits)
    have "\<not> bit b j" using j8 nf "1.prems"(2) or_not_bit[of j b] by simp
    then show ?thesis using j8 kj b' "1.prems"(2) by auto
  qed
qed

lemma scan_byte_None:
  "scan_byte b msk j = None \<Longrightarrow> msk = push_bit j 1 \<Longrightarrow> (\<forall>i. j \<le> i \<and> i < 8 \<longrightarrow> bit b i)"
proof (induction b msk j rule: scan_byte.induct)
  case (1 b msk j)
  show ?case
  proof (cases "j < 8")
    case True
    then have nb: "\<not> (b OR NOT msk) \<noteq> 0xFF" and rec: "scan_byte b (push_bit 1 msk) (Suc j) = None"
      using "1.prems"(1) by (auto simp add: scan_byte.simps[of b msk j] split: if_splits)
    have "push_bit 1 msk = (push_bit (Suc j) 1 :: byte)"
      using "1.prems"(2) by (simp add: push_bit_eq_mult)
    then have ih: "\<forall>i. Suc j \<le> i \<and> i < 8 \<longrightarrow> bit b i"
      using "1.IH" True nb rec by blast
    have "bit b j" using True nb "1.prems"(2) or_not_bit[of j b] by simp
    with ih show ?thesis by (metis Suc_leI le_neq_implies_less)
  next
    case False
    then show ?thesis by auto
  qed
qed


lemma div_mod_8_eq: "k' div 8 = k div 8 \<Longrightarrow> k' mod 8 = k mod 8 \<Longrightarrow> k' = (k::nat)"
  by (metis div_mult_mod_eq)

lemma fd_bit_set: "length bm = 8 \<Longrightarrow> k < 64 \<Longrightarrow> k' < 64 \<Longrightarrow>
   fd_bit (set_fd_bit bm k) k' = (k' = k \<or> fd_bit bm k')"
  by (cases "k' div 8 = k div 8")
     (auto simp add: fd_bit_def set_fd_bit_def bit_simps dest: div_mod_8_eq)

lemma byte_ff_iff: "((b::byte) = 0xFF) = (\<forall>j<8. bit b j)"
proof -
  have ff: "(0xFF::byte) = - 1" by simp
  show ?thesis unfolding ff by (auto simp add: bit_eq_iff[where ?'a = byte] bit_simps)
qed

lemma fd_bit_in_byte: "8 * i \<le> k \<Longrightarrow> k < 8 * i + 8 \<Longrightarrow> fd_bit bm k = bit (bm ! i) (k - 8 * i)"
proof -
  assume a: "8 * i \<le> k" "k < 8 * i + 8"
  then have "k div 8 = i" by arith
  moreover from a have "k mod 8 = k - 8 * i" by (metis calculation minus_mult_div_eq_mod)
  ultimately show ?thesis by (simp add: fd_bit_def)
qed

lemma scan_extend:
  assumes "\<forall>j<8. bit (bm ! i) j" and "\<forall>k. 8 * Suc i \<le> k \<and> k < m \<longrightarrow> fd_bit bm k"
  shows "\<forall>k. 8 * i \<le> k \<and> k < m \<longrightarrow> fd_bit bm k"
proof (intro allI impI)
  fix k assume k: "8 * i \<le> k \<and> k < m"
  show "fd_bit bm k"
  proof (cases "k < 8 * i + 8")
    case True
    then have "k - 8 * i < 8" using k by arith
    then show ?thesis using k True assms(1) fd_bit_in_byte[of i k bm] by simp
  next
    case False
    then show ?thesis using k assms(2) by simp
  qed
qed

lemma scan_bitmap_spec:
  "scan_bitmap bm i = (ret, bm') \<Longrightarrow> length bm = 8 \<Longrightarrow>
     (ret = ERR_EXIST \<and> bm' = bm \<and> (\<forall>k. 8 * i \<le> k \<and> k < 64 \<longrightarrow> fd_bit bm k)) \<or>
     (\<exists>k. 8 * i \<le> k \<and> k < 64 \<and> ret = int k + 1 \<and> \<not> fd_bit bm k \<and>
          (\<forall>k'. 8 * i \<le> k' \<and> k' < k \<longrightarrow> fd_bit bm k') \<and> bm' = set_fd_bit bm k)"
proof (induction bm i rule: scan_bitmap.induct)
  case (1 bm i)
  have unf: "scan_bitmap bm i = (if i < MAX_NUM_FD div 8 then
        (if bm ! i = 0xFF then scan_bitmap bm (Suc i)
         else (case scan_byte (bm ! i) 1 0 of
                 Some (j, b) \<Rightarrow> (int (i * 8 + j + 1), bm[i := b])
               | None \<Rightarrow> scan_bitmap bm (Suc i)))
      else (ERR_EXIST, bm))" by (rule scan_bitmap.simps)
  show ?case
  proof (cases "i < 8")
    case False
    then show ?thesis using "1.prems"(1) unfolding unf by auto
  next
    case i8: True
    show ?thesis
    proof (cases "bm ! i = 0xFF")
      case True
      then have all: "\<forall>j<8. bit (bm ! i) j" by (simp add: byte_ff_iff)
      from True i8 "1.prems"(1) have "scan_bitmap bm (Suc i) = (ret, bm')" unfolding unf by simp
      with "1.IH"(1)[OF _ True _ "1.prems"(2)] i8
      have "(ret = ERR_EXIST \<and> bm' = bm \<and> (\<forall>k. 8 * Suc i \<le> k \<and> k < 64 \<longrightarrow> fd_bit bm k)) \<or>
     (\<exists>k. 8 * Suc i \<le> k \<and> k < 64 \<and> ret = int k + 1 \<and> \<not> fd_bit bm k \<and>
          (\<forall>k'. 8 * Suc i \<le> k' \<and> k' < k \<longrightarrow> fd_bit bm k') \<and> bm' = set_fd_bit bm k)" by simp
      then show ?thesis
      proof (elim disjE exE conjE)
        assume "ret = ERR_EXIST" "bm' = bm" "\<forall>k. 8 * Suc i \<le> k \<and> k < 64 \<longrightarrow> fd_bit bm k"
        then show ?thesis using scan_extend[OF all] by blast
      next
        fix k assume k: "8 * Suc i \<le> k" "k < 64" "ret = int k + 1" "\<not> fd_bit bm k"
          "\<forall>k'. 8 * Suc i \<le> k' \<and> k' < k \<longrightarrow> fd_bit bm k'" "bm' = set_fd_bit bm k"
        have "\<forall>k'. 8 * i \<le> k' \<and> k' < k \<longrightarrow> fd_bit bm k'" using scan_extend[OF all k(5)] .
        with k show ?thesis by (intro disjI2 exI[of _ k]) simp
      qed
    next
      case nff: False
      show ?thesis
      proof (cases "scan_byte (bm ! i) 1 0")
        case None
        then have all: "\<forall>j<8. bit (bm ! i) j" using scan_byte_None[of "bm ! i" 1 0] by simp
        from None nff i8 "1.prems"(1) have "scan_bitmap bm (Suc i) = (ret, bm')" unfolding unf by simp
        with "1.IH"(2)[OF _ nff None _ "1.prems"(2)] i8
        have "(ret = ERR_EXIST \<and> bm' = bm \<and> (\<forall>k. 8 * Suc i \<le> k \<and> k < 64 \<longrightarrow> fd_bit bm k)) \<or>
     (\<exists>k. 8 * Suc i \<le> k \<and> k < 64 \<and> ret = int k + 1 \<and> \<not> fd_bit bm k \<and>
          (\<forall>k'. 8 * Suc i \<le> k' \<and> k' < k \<longrightarrow> fd_bit bm k') \<and> bm' = set_fd_bit bm k)" by simp
        then show ?thesis
        proof (elim disjE exE conjE)
          assume "ret = ERR_EXIST" "bm' = bm" "\<forall>k. 8 * Suc i \<le> k \<and> k < 64 \<longrightarrow> fd_bit bm k"
          then show ?thesis using scan_extend[OF all] by blast
        next
          fix k assume k: "8 * Suc i \<le> k" "k < 64" "ret = int k + 1" "\<not> fd_bit bm k"
            "\<forall>k'. 8 * Suc i \<le> k' \<and> k' < k \<longrightarrow> fd_bit bm k'" "bm' = set_fd_bit bm k"
          have "\<forall>k'. 8 * i \<le> k' \<and> k' < k \<longrightarrow> fd_bit bm k'" using scan_extend[OF all k(5)] .
          with k show ?thesis by (intro disjI2 exI[of _ k]) simp
        qed
      next
        case (Some p)
        obtain j b where p: "p = (j, b)" by (cases p)
        from Some p have sb: "scan_byte (bm ! i) 1 0 = Some (j, b)" by simp
        from scan_byte_Some[OF sb] have j: "j < 8" "\<not> bit (bm ! i) j" "b = bm ! i OR push_bit j 1"
          "\<forall>i'. i' < j \<longrightarrow> bit (bm ! i) i'" by auto
        from sb nff i8 "1.prems"(1) have r: "ret = int (i * 8 + j + 1)" "bm' = bm[i := b]"
          unfolding unf by auto
        let ?k = "8 * i + j"
        have kd: "?k div 8 = i" "?k mod 8 = j" using j(1) by auto
        have 1: "8 * i \<le> ?k" "?k < 64" using j(1) i8 by auto
        have 2: "ret = int ?k + 1" using r(1) by (simp add: mult.commute)
        have 3: "\<not> fd_bit bm ?k" using j(2) kd by (simp add: fd_bit_def)
        have 4: "\<forall>k'. 8 * i \<le> k' \<and> k' < ?k \<longrightarrow> fd_bit bm k'"
        proof (intro allI impI)
          fix k' assume k': "8 * i \<le> k' \<and> k' < ?k"
          then have "k' - 8 * i < j" "k' < 8 * i + 8" using j(1) by arith+
          then show "fd_bit bm k'" using k' j(4) fd_bit_in_byte[of i k' bm] by simp
        qed
        have 5: "bm' = set_fd_bit bm ?k" using r(2) j(3) kd by (simp add: set_fd_bit_def)
        show ?thesis using 1 2 3 4 5 by blast
      qed
    qed
  qed
qed


lemma get_unused_fd_spec:
  assumes "get_unused_fd bm = (ret, bm')" and "length bm = 8"
  shows "(ret = ERR_EXIST \<and> bm' = bm \<and> (\<forall>k<64. fd_bit bm k)) \<or>
     (\<exists>k<64. ret = int k + 1 \<and> \<not> fd_bit bm k \<and> (\<forall>k'<k. fd_bit bm k') \<and> bm' = set_fd_bit bm k)"
  using scan_bitmap_spec[of bm 0 ret bm'] assms by (simp add: get_unused_fd_def)

lemma length_set_fd_bit [simp]: "length (set_fd_bit bm k) = length bm"
  by (simp add: set_fd_bit_def)

lemma map_update_same: "f x = f (xs ! i) \<Longrightarrow> map f (xs[i := x]) = map f xs"
  by (cases "i < length xs") (simp_all add: map_update list_update_same_conv list_update_beyond)

lemma funpow_push_bit: "(push_bit (Suc 0) ^^ n) (1::byte) = push_bit n 1"
  by (induction n) (simp_all add: push_bit_eq_mult)

lemma sdiv_nonneg: "0 \<le> a \<Longrightarrow> a sdiv (8::int) = a div 8"
  by (simp add: signed_divide_int_def sgn_if)

lemma smod_nonneg: "0 \<le> a \<Longrightarrow> a smod (8::int) = a mod 8"
  by (simp add: signed_modulo_int_def sgn_if)

lemma mark_fd_as_unused_eq:
  assumes "1 \<le> d" "d \<le> 64"
  shows "mark_fd_as_unused (int d) bm =
     bm[(d - 1) div 8 := (bm ! ((d - 1) div 8)) AND NOT (push_bit ((d - 1) mod 8) 1)]"
proof -
  have a: "int d - 1 = int (d - 1)" using assms by simp
  have "nat (int (d - 1) div 8) = (d - 1) div 8" "nat (int (d - 1) mod 8) = (d - 1) mod 8"
    by (simp_all add: nat_div_distrib nat_mod_distrib)
  moreover have "\<not> 64 \<le> d - Suc 0" using assms by arith
  ultimately show ?thesis using assms
    by (simp add: mark_fd_as_unused_def Let_def a sdiv_nonneg smod_nonneg funpow_push_bit
          del: of_nat_diff)
qed

lemma mark_fd_as_unused_spec:
  assumes "1 \<le> d" "d \<le> 64" "length bm = 8" "k < 64"
  shows "fd_bit (mark_fd_as_unused (int d) bm) k = (k \<noteq> d - 1 \<and> fd_bit bm k)"
  unfolding mark_fd_as_unused_eq[OF assms(1,2)] using assms
  by (cases "k div 8 = (d - 1) div 8")
     (auto simp add: fd_bit_def bit_simps dest: div_mod_8_eq)

lemma length_mark_fd_as_unused [simp]: "length (mark_fd_as_unused d bm) = length bm"
  by (simp add: mark_fd_as_unused_def Let_def)

lemma init_bitmap: "fold (\<lambda>i b. b[i := 0]) [Suc 0..<8] ((replicate 8 (0::byte))[0 := 1]) = [1,0,0,0,0,0,0,0]"
  by code_simp

lemma initialize_table:
  "fd_bitmap (initialize_file_system n (boot dev)) = [1,0,0,0,0,0,0,0]"
  "file_array (initialize_file_system n (boot dev)) = (\<lambda>_. None)"
  by (simp_all add: initialize_file_system_def Let_def read_dir_data_from_storage_def
        flush_dir_data_to_storage_def boot_def init_bitmap split: prod.splits)

lemma fd_inv_initialize: "fd_inv (initialize_file_system n (boot dev))"
  by (simp add: fd_inv_def initialize_table fd_bit_def)

lemma find_file_Some:
  "find_file fl name i acc = Some (Some idx) \<Longrightarrow>
     acc = Some idx \<or> (i \<le> idx \<and> idx < i + length fl \<and> c_string (fl ! (idx - i)) = name \<and>
       \<not> opened (fl ! (idx - i)))"
proof (induction fl arbitrary: i acc)
  case Nil
  then show ?case by simp
next
  case (Cons f fl)
  show ?case
  proof (cases "c_string f = name")
    case True
    with Cons.prems have no: "\<not> opened f" and rec: "find_file fl name (Suc i) (Some i) = Some (Some idx)"
      by (auto split: if_splits)
    from Cons.IH[OF rec] show ?thesis
    proof
      assume "Some i = Some idx"
      then show ?thesis using True no by simp
    next
      assume a: "Suc i \<le> idx \<and> idx < Suc i + length fl \<and> c_string (fl ! (idx - Suc i)) = name \<and>
       \<not> opened (fl ! (idx - Suc i))"
      then have "idx - i = Suc (idx - Suc i)" by arith
      with a show ?thesis by simp
    qed
  next
    case False
    with Cons.prems have rec: "find_file fl name (Suc i) acc = Some (Some idx)" by simp
    from Cons.IH[OF rec] show ?thesis
    proof
      assume "acc = Some idx"
      then show ?thesis by simp
    next
      assume a: "Suc i \<le> idx \<and> idx < Suc i + length fl \<and> c_string (fl ! (idx - Suc i)) = name \<and>
       \<not> opened (fl ! (idx - Suc i))"
      then have "idx - i = Suc (idx - Suc i)" by arith
      with a show ?thesis by simp
    qed
  qed
qed

lemma find_file_found:
  "find_file fl name 0 None = Some (Some idx) \<Longrightarrow>
     idx < length fl \<and> c_string (fl ! idx) = name \<and> \<not> opened (fl ! idx)"
  using find_file_Some[of fl name 0 None idx] by simp

lemma unat_fd: "k < 64 \<Longrightarrow> unat (word_of_int (int k + 1) :: u32) = k + 1"
proof -
  assume "k < 64"
  have "(word_of_int (int k + 1) :: u32) = of_nat (k + 1)" by simp
  then show ?thesis using \<open>k < 64\<close> by (simp add: unat_of_nat del: of_nat_add of_nat_Suc)
qed

lemma install_fd_cases:
  assumes "install_fd idx s = (fd, s')" and "length (fd_bitmap s) = 8"
  shows "(fd = 0 \<and> s' = s) \<or>
         (fd = 0 \<and> \<not> fd_bit (fd_bitmap s) 63 \<and> (\<forall>k<63. fd_bit (fd_bitmap s) k) \<and>
            s' = s\<lparr>fd_bitmap := set_fd_bit (fd_bitmap s) 63\<rparr>) \<or>
         (fd = 0 \<and> (\<exists>k<63. \<not> fd_bit (fd_bitmap s) k \<and> file_array s (Suc k) \<noteq> None \<and>
            s' = s\<lparr>fd_bitmap := set_fd_bit (fd_bitmap s) k\<rparr>)) \<or>
         (\<exists>k<63. unat fd = Suc k \<and> \<not> fd_bit (fd_bitmap s) k \<and> (\<forall>k'<k. fd_bit (fd_bitmap s) k') \<and>
            file_array s (Suc k) = None \<and>
            s' = s\<lparr>fd_bitmap := set_fd_bit (fd_bitmap s) k,
                   file_array := (file_array s)(Suc k \<mapsto> idx),
                   file_list := (file_list s)[idx := (file_list s ! idx)\<lparr>opened := True\<rparr>]\<rparr>)"
proof -
  obtain ret bm' where g: "get_unused_fd (fd_bitmap s) = (ret, bm')" by (cases "get_unused_fd (fd_bitmap s)")
  from get_unused_fd_spec[OF g assms(2)] show ?thesis
  proof (elim disjE exE conjE)
    assume "ret = ERR_EXIST" "bm' = fd_bitmap s"
    then show ?thesis using assms(1) g by (simp add: install_fd_def)
  next
    fix k assume k: "k < 64" "ret = int k + 1" "\<not> fd_bit (fd_bitmap s) k"
       "\<forall>k'<k. fd_bit (fd_bitmap s) k'" "bm' = set_fd_bit (fd_bitmap s) k"
    have u: "unat (word_of_int ret :: u32) = Suc k" using k(1,2) unat_fd[of k] by simp
    then have nz: "(word_of_int ret :: u32) \<noteq> 0" by (metis Zero_not_Suc unat_0)
    have ge: "((word_of_int ret :: u32) \<ge> 64) = (k = 63)"
      using u k(1) by (auto simp add: word_le_nat_alt)
    show ?thesis
    proof (cases "k = 63")
      case True
      then show ?thesis using assms(1) g k ge by (simp add: install_fd_def Let_def)
    next
      case False
      then have k63: "k < 63" using k(1) by simp
      show ?thesis
      proof (cases "file_array s (Suc k)")
        case None
        then have "fd = word_of_int ret" and "s' = s\<lparr>fd_bitmap := set_fd_bit (fd_bitmap s) k,
                   file_array := (file_array s)(Suc k \<mapsto> idx),
                   file_list := (file_list s)[idx := (file_list s ! idx)\<lparr>opened := True\<rparr>]\<rparr>"
          using assms(1) g k ge nz u False by (auto simp add: install_fd_def Let_def)
        then show ?thesis using k63 k u None by blast
      next
        case (Some a)
        then have "fd = 0" and "s' = s\<lparr>fd_bitmap := set_fd_bit (fd_bitmap s) k\<rparr>"
          using assms(1) g k ge nz u False by (auto simp add: install_fd_def Let_def)
        then show ?thesis using k63 k Some by blast
      qed
    qed
  qed
qed

lemma fd_inv_cong:
  assumes "fd_inv s" "fd_bitmap s' = fd_bitmap s" "file_array s' = file_array s"
    "map opened (file_list s') = map opened (file_list s)"
  shows "fd_inv s'"
proof -
  from assms(4) have len: "length (file_list s') = length (file_list s)"
    by (rule map_eq_imp_length_eq)
  have op: "\<And>i. i < length (file_list s) \<Longrightarrow> opened (file_list s' ! i) = opened (file_list s ! i)"
    using assms(4) len by (metis nth_map)
  show ?thesis using assms(1) unfolding fd_inv_def assms(2,3) len
    by (auto simp add: op)
qed

lemma flush_frame [simp]:
  "fd_bitmap (flush_dir_data_to_storage s) = fd_bitmap s"
  "file_array (flush_dir_data_to_storage s) = file_array s"
  "file_list (flush_dir_data_to_storage s) = file_list s"
  "dir_data (flush_dir_data_to_storage s) = dir_data s"
  "dir_data_ptr (flush_dir_data_to_storage s) = dir_data_ptr s"
  "partition_num_blocks (flush_dir_data_to_storage s) = partition_num_blocks s"
  by (simp_all add: flush_dir_data_to_storage_def)

lemma add_file_frame:
  assumes "add_file_to_directory f s = (ret, f', s1)"
  shows "fd_bitmap s1 = fd_bitmap s" "file_array s1 = file_array s" "file_list s1 = file_list s"
    "partition_num_blocks s1 = partition_num_blocks s"
    "f' = f\<lparr>dir_data_off := dir_data_ptr s\<rparr>"
  using assms by (auto simp add: add_file_to_directory_def Let_def split: prod.splits if_splits)

lemma update_size_frame:
  assumes "update_size idx sz s = (ret, s')"
  shows "fd_bitmap s' = fd_bitmap s" "file_array s' = file_array s"
    "file_list s' = (file_list s)[idx := (file_list s ! idx)\<lparr>fsize := sz\<rparr>]"
    "partition_num_blocks s' = partition_num_blocks s" "dir_data_ptr s' = dir_data_ptr s"
  using assms by (auto simp add: update_size_def Let_def split: prod.splits)

lemma expand_empty_frame:
  assumes "expand_empty_file idx nb s = (ret, s')"
  shows "fd_bitmap s' = fd_bitmap s" "file_array s' = file_array s"
    "partition_num_blocks s' = partition_num_blocks s" "dir_data_ptr s' = dir_data_ptr s"
    "dir_data s' = dir_data s"
    "ret \<noteq> 0 \<longrightarrow> s' = s"
    "ret = 0 \<longrightarrow> file_list s' = (file_list s)[idx := (file_list s ! idx)
        \<lparr>start_block := last_end (file_list s) 2, num_blocks := nb\<rparr>]"
  using assms by (auto simp add: expand_empty_file_def Let_def split: if_splits)

lemma expand_existing_frame:
  assumes "expand_existing_file idx nb s = (ret, s')"
  shows "fd_bitmap s' = fd_bitmap s" "file_array s' = file_array s"
    "partition_num_blocks s' = partition_num_blocks s" "dir_data_ptr s' = dir_data_ptr s"
    "dir_data s' = dir_data s"
    "ret \<noteq> 0 \<longrightarrow> s' = s"
    "ret = 0 \<longrightarrow> file_list s' = (file_list s)[idx := (file_list s ! idx)
        \<lparr>num_blocks := num_blocks (file_list s ! idx) + nb\<rparr>]"
  using assms by (auto simp add: expand_existing_file_def Let_def split: if_splits)

lemma expand_file_size_table:
  assumes "expand_file_size idx sz s = (ret, s')"
  shows "fd_bitmap s' = fd_bitmap s \<and> file_array s' = file_array s \<and>
     map opened (file_list s') = map opened (file_list s) \<and>
     map filename (file_list s') = map filename (file_list s) \<and>
     map dir_data_off (file_list s') = map dir_data_off (file_list s) \<and>
     partition_num_blocks s' = partition_num_blocks s \<and> dir_data_ptr s' = dir_data_ptr s"
proof -
  let ?f = "file_list s ! idx"
  show ?thesis
  proof (cases "fsize ?f \<ge> sz")
    case True
    then show ?thesis using assms by (simp add: expand_file_size_def)
  next
    case ge: False
    let ?needed = "(if fsize ?f = 0 then sz else sz - fsize ?f)"
    let ?leftover = "512 - (fsize ?f mod 512)"
    show ?thesis
    proof (cases "?leftover \<noteq> 512 \<and> ?leftover \<ge> ?needed")
      case True
      then have "update_size idx sz s = (ret, s')" using assms ge
        by (simp add: expand_file_size_def Let_def)
      from update_size_frame[OF this] show ?thesis by (simp add: map_update_same)
    next
      case False
      let ?nb = "?needed div 512"
      let ?blocks = "(if ?needed mod 512 \<noteq> 0 then ?nb + 1 else ?nb)"
      obtain r1 s1 where e: "(if fsize ?f = 0 then expand_empty_file idx ?blocks s
                       else expand_existing_file idx ?blocks s) = (r1, s1)"
        by (cases "(if fsize ?f = 0 then expand_empty_file idx ?blocks s
                       else expand_existing_file idx ?blocks s)")
      have unf: "expand_file_size idx sz s = (if r1 = 0 then update_size idx sz s1 else (r1, s1))"
        by (simp only: expand_file_size_def Let_def ge False e if_False prod.case)
      have f1: "fd_bitmap s1 = fd_bitmap s \<and> file_array s1 = file_array s \<and>
        map opened (file_list s1) = map opened (file_list s) \<and>
        map filename (file_list s1) = map filename (file_list s) \<and>
        map dir_data_off (file_list s1) = map dir_data_off (file_list s) \<and>
        partition_num_blocks s1 = partition_num_blocks s \<and> dir_data_ptr s1 = dir_data_ptr s"
      proof (cases "fsize ?f = 0")
        case True
        with e have "expand_empty_file idx ?blocks s = (r1, s1)" by simp
        from expand_empty_frame[OF this] show ?thesis
          by (cases "r1 = 0") (simp_all add: map_update_same)
      next
        case False
        with e have "expand_existing_file idx ?blocks s = (r1, s1)" by simp
        from expand_existing_frame[OF this] show ?thesis
          by (cases "r1 = 0") (simp_all add: map_update_same)
      qed
      show ?thesis
      proof (cases "r1 = 0")
        case True
        with unf assms have "update_size idx sz s1 = (ret, s')" by simp
        from update_size_frame[OF this] f1 show ?thesis by (simp add: map_update_same)
      next
        case False
        with unf assms f1 show ?thesis by simp
      qed
    qed
  qed
qed

lemma write_data_shape:
  assumes "write_data idx data sz offset s1 = Some (r, s')"
  shows "\<exists>st. s' = s1\<lparr>blocks := st\<rparr>"
proof (cases "offset \<ge> fsize (file_list s1 ! idx)")
  case True
  then have "s' = s1\<lparr>blocks := blocks s1\<rparr>" using assms by (simp add: write_data_def)
  then show ?thesis by blast
next
  case False
  then show ?thesis using assms
    by (auto simp add: write_data_def Let_def split: option.splits prod.splits)
qed

lemma write_shape:
  assumes "file_system_write_to_file fd data sz offset s = Some (r, s')"
  shows "s' = s \<or> (\<exists>idx st. file_array s (unat fd) = Some idx \<and>
     s' = (if fsize (file_list s ! idx) < offset + sz
           then snd (expand_file_size idx (offset + sz) s) else s)\<lparr>blocks := st\<rparr>)"
proof (cases "fd = 0 \<or> fd \<ge> 64")
  case True
  then show ?thesis using assms by (simp add: file_system_write_to_file_def)
next
  case fd: False
  show ?thesis
  proof (cases "file_array s (unat fd)")
    case None
    then show ?thesis using assms fd by (simp add: file_system_write_to_file_def)
  next
    case (Some idx)
    let ?f = "file_list s ! idx"
    from assms fd Some have
      "s' = s \<or> (fsize ?f < offset + sz \<and>
          write_data idx data sz offset (snd (expand_file_size idx (offset + sz) s)) = Some (r, s')) \<or>
       (\<not> fsize ?f < offset + sz \<and> write_data idx data sz offset s = Some (r, s'))"
      by (simp add: file_system_write_to_file_def split: if_splits)
    then show ?thesis using Some write_data_shape by (elim disjE conjE) (simp, fastforce+)
  qed
qed

lemma write_table:
  assumes "file_system_write_to_file fd data sz offset s = Some (r, s')"
  shows "fd_bitmap s' = fd_bitmap s \<and> file_array s' = file_array s \<and>
     map opened (file_list s') = map opened (file_list s) \<and>
     map filename (file_list s') = map filename (file_list s) \<and>
     map dir_data_off (file_list s') = map dir_data_off (file_list s) \<and>
     partition_num_blocks s' = partition_num_blocks s \<and> dir_data_ptr s' = dir_data_ptr s"
proof -
  from write_shape[OF assms] show ?thesis
  proof (elim disjE exE conjE)
    assume "s' = s" then show ?thesis by simp
  next
    fix idx st
    assume s': "s' = (if fsize (file_list s ! idx) < offset + sz
           then snd (expand_file_size idx (offset + sz) s) else s)\<lparr>blocks := st\<rparr>"
    show ?thesis
    proof (cases "fsize (file_list s ! idx) < offset + sz")
      case True
      obtain ret s1 where e: "expand_file_size idx (offset + sz) s = (ret, s1)"
        by (cases "expand_file_size idx (offset + sz) s")
      from expand_file_size_table[OF e] s' True e show ?thesis by simp
    next
      case False
      then show ?thesis using s' by simp
    qed
  qed
qed

lemma read_frame:
  assumes "file_system_read_from_file fd sz offset s = Some (r, bytes, s')"
  shows "\<exists>st. s' = s\<lparr>blocks := st\<rparr>"
proof -
  have "s = s\<lparr>blocks := blocks s\<rparr>" by simp
  then have same: "\<exists>st. s = s\<lparr>blocks := st\<rparr>" by blast
  show ?thesis
  proof (cases "fd = 0 \<or> fd \<ge> 64")
    case True
    then show ?thesis using assms same by (simp add: file_system_read_from_file_def)
  next
    case fd: False
    show ?thesis
    proof (cases "file_array s (unat fd)")
      case None
      then show ?thesis using assms fd same by (simp add: file_system_read_from_file_def)
    next
      case (Some idx)
      show ?thesis
      proof (cases "\<not> opened (file_list s ! idx) \<or> offset \<ge> fsize (file_list s ! idx)")
        case True
        then have "s' = s" using assms fd Some
          by (cases "opened (file_list s ! idx)") (simp_all add: file_system_read_from_file_def Let_def)
        then show ?thesis using same by simp
      next
        case False
        then show ?thesis using assms fd Some
          by (auto simp add: file_system_read_from_file_def Let_def split: option.splits prod.splits)
      qed
    qed
  qed
qed

lemma install_fd_inv:
  assumes inv: "fd_inv s" and idx: "idx < length (file_list s)"
    and free: "\<forall>d. file_array s d \<noteq> Some idx"
    and res: "install_fd idx s = (fd, s')"
  shows "fd_inv s' \<and> (fd = 0 \<or> (2 \<le> fd \<and> fd < 64))"
proof -
  from inv have len: "length (fd_bitmap s) = 8" and b0: "fd_bit (fd_bitmap s) 0"
    and tab: "\<And>d i. file_array s d = Some i \<Longrightarrow>
         2 \<le> d \<and> d < 64 \<and> i < length (file_list s) \<and> opened (file_list s ! i) \<and>
         fd_bit (fd_bitmap s) (d - 1)"
    and inj: "\<And>d d' i. file_array s d = Some i \<Longrightarrow> file_array s d' = Some i \<Longrightarrow> d = d'"
    unfolding fd_inv_def by blast+
  have setbit: "fd_inv (s\<lparr>fd_bitmap := set_fd_bit (fd_bitmap s) k\<rparr>)" if k: "k < 64" for k
    unfolding fd_inv_def
  proof (intro conjI allI impI)
    let ?s = "s\<lparr>fd_bitmap := set_fd_bit (fd_bitmap s) k\<rparr>"
    show "length (fd_bitmap ?s) = 8" using len by simp
    show "fd_bit (fd_bitmap ?s) 0" using b0 len k by (simp add: fd_bit_set)
  next
    let ?s = "s\<lparr>fd_bitmap := set_fd_bit (fd_bitmap s) k\<rparr>"
    fix d i assume "file_array ?s d = Some i"
    then have a: "file_array s d = Some i" by simp
    from tab[OF a] show "2 \<le> d" "d < 64" by simp_all
    from tab[OF a] show "i < length (file_list ?s)" "opened (file_list ?s ! i)" by simp_all
    from tab[OF a] have "d - 1 < 64" "fd_bit (fd_bitmap s) (d - 1)" by auto
    then show "fd_bit (fd_bitmap ?s) (d - 1)" using len k by (simp add: fd_bit_set)
  next
    let ?s = "s\<lparr>fd_bitmap := set_fd_bit (fd_bitmap s) k\<rparr>"
    fix d d' i assume "file_array ?s d = Some i" "file_array ?s d' = Some i"
    then show "d = d'" using inj by simp
  qed
  from install_fd_cases[OF res len] show ?thesis
  proof (elim disjE conjE exE)
    assume "fd = 0" "s' = s"
    then show ?thesis using inv by simp
  next
    assume "fd = 0" "s' = s\<lparr>fd_bitmap := set_fd_bit (fd_bitmap s) 63\<rparr>"
    then show ?thesis using setbit[of 63] by simp
  next
    fix k assume "fd = 0" "k < 63" "s' = s\<lparr>fd_bitmap := set_fd_bit (fd_bitmap s) k\<rparr>"
    then show ?thesis using setbit[of k] by simp
  next
    fix k assume k: "k < 63" "unat fd = Suc k" "\<not> fd_bit (fd_bitmap s) k"
      "file_array s (Suc k) = None"
      and s': "s' = s\<lparr>fd_bitmap := set_fd_bit (fd_bitmap s) k,
                   file_array := (file_array s)(Suc k \<mapsto> idx),
                   file_list := (file_list s)[idx := (file_list s ! idx)\<lparr>opened := True\<rparr>]\<rparr>"
    have k0: "k \<noteq> 0" using k(3) b0 by (cases "k = 0") simp_all
    have range: "2 \<le> fd \<and> fd < 64" using k(1,2) k0 by (simp add: word_le_nat_alt word_less_nat_alt)
    have "fd_inv s'"
      unfolding fd_inv_def
    proof (intro conjI allI impI)
      show "length (fd_bitmap s') = 8" using len s' by simp
      show "fd_bit (fd_bitmap s') 0" using s' b0 len k(1) by (simp add: fd_bit_set)
    next
      fix d i assume a: "file_array s' d = Some i"
      show "2 \<le> d" using a s' tab k0 by (auto split: if_splits)
      show "d < 64" using a s' tab k(1) by (auto split: if_splits)
      show "i < length (file_list s')" using a s' tab idx by (auto split: if_splits)
      show "opened (file_list s' ! i)" using a s' tab idx
        by (cases "i = idx") (auto split: if_splits)
      show "fd_bit (fd_bitmap s') (d - 1)"
      proof (cases "d = Suc k")
        case True
        then show ?thesis using s' len k(1) by (simp add: fd_bit_set)
      next
        case False
        with a s' have "file_array s d = Some i" by (simp split: if_splits)
        from tab[OF this] have "d - 1 < 64" "fd_bit (fd_bitmap s) (d - 1)" by auto
        then show ?thesis using s' len k(1) by (simp add: fd_bit_set)
      qed
    next
      fix d d' i assume a: "file_array s' d = Some i" "file_array s' d' = Some i"
      show "d = d'" using a s' inj free by (auto split: if_splits)
    qed
    with range show ?thesis by simp
  qed
qed

lemma open_fd_inv:
  assumes inv: "fd_inv s" and res: "file_system_open_file junk name mode s = (fd, s')"
  shows "fd_inv s' \<and> (fd = 0 \<or> (2 \<le> fd \<and> fd < 64))"
proof (cases "mode = 0 \<or> mode = 1")
  case False
  then show ?thesis using inv res by (simp add: file_system_open_file_def)
next
  case mode: True
  from inv have tab: "\<And>d i. file_array s d = Some i \<Longrightarrow>
         i < length (file_list s) \<and> opened (file_list s ! i)"
    unfolding fd_inv_def by blast
  show ?thesis
  proof (cases "find_file (file_list s) name 0 None")
    case None
    then show ?thesis using inv res mode by (simp add: file_system_open_file_def)
  next
    case (Some found)
    show ?thesis
    proof (cases found)
      case (Some idx)
      with \<open>find_file (file_list s) name 0 None = Some found\<close>
      have ff: "find_file (file_list s) name 0 None = Some (Some idx)" by simp
      from find_file_found[OF ff] have idx: "idx < length (file_list s)"
        and cl: "\<not> opened (file_list s ! idx)" by simp_all
      have free: "\<forall>d. file_array s d \<noteq> Some idx" using tab cl by blast
      have "install_fd idx s = (fd, s')" using res mode ff
        by (simp add: file_system_open_file_def)
      from install_fd_inv[OF inv idx free this] show ?thesis .
    next
      case None
      with \<open>find_file (file_list s) name 0 None = Some found\<close>
      have ff: "find_file (file_list s) name 0 None = Some None" by simp
      show ?thesis
      proof (cases "mode = 1")
        case False
        then show ?thesis using inv res mode ff by (simp add: file_system_open_file_def)
      next
        case True
        let ?f = "new_file junk name"
        obtain ret f' s1 where add: "add_file_to_directory ?f s = (ret, f', s1)"
          by (cases "add_file_to_directory ?f s")
        show ?thesis
        proof (cases "ret = 0")
          case False
          then show ?thesis using inv res True ff add by (simp add: file_system_open_file_def)
        next
          case r0: True
          let ?s2 = "s1\<lparr>file_list := file_list s1 @ [f']\<rparr>"
          have ins: "install_fd (length (file_list s1)) ?s2 = (fd, s')"
            using res True ff add r0 by (simp add: file_system_open_file_def)
          note fr = add_file_frame[OF add]
          from inv have tab2: "\<And>d i. file_array s d = Some i \<Longrightarrow>
              2 \<le> d \<and> d < 64 \<and> i < length (file_list s) \<and> opened (file_list s ! i) \<and>
              fd_bit (fd_bitmap s) (d - 1)"
            unfolding fd_inv_def by blast
          have inv2: "fd_inv ?s2" unfolding fd_inv_def
          proof (intro conjI allI impI)
            show "length (fd_bitmap ?s2) = 8" "fd_bit (fd_bitmap ?s2) 0"
              using inv fr unfolding fd_inv_def by simp_all
          next
            fix d i assume "file_array ?s2 d = Some i"
            then have a: "file_array s d = Some i" using fr by simp
            from tab2[OF a] show "2 \<le> d" "d < 64" by simp_all
            from tab2[OF a] show "i < length (file_list ?s2)" using fr by simp
            from tab2[OF a] show "opened (file_list ?s2 ! i)" using fr by (simp add: nth_append)
            from tab2[OF a] show "fd_bit (fd_bitmap ?s2) (d - 1)" using fr by simp
          next
            fix d d' i assume "file_array ?s2 d = Some i" "file_array ?s2 d' = Some i"
            then show "d = d'" using inv fr unfolding fd_inv_def by simp
          qed
          have idx: "length (file_list s1) < length (file_list ?s2)" by simp
          have free: "\<forall>d. file_array ?s2 d \<noteq> Some (length (file_list s1))"
            using tab fr by auto
          from install_fd_inv[OF inv2 idx free ins] show ?thesis .
        qed
      qed
    qed
  qed
qed

lemma sint_small: "fd < 64 \<Longrightarrow> sint (fd :: u32) = int (unat fd)"
proof -
  assume a: "fd < 64"
  then have "uint fd < 64" by (simp add: word_less_def)
  then have up: "uint fd < 2 ^ 31" by simp
  have "- (2 ^ 31) \<le> (0::int)" by simp
  also have "0 \<le> uint fd" by simp
  finally have "signed_take_bit 31 (uint fd) = uint fd" using up
    by (rule signed_take_bit_int_eq_self)
  then show ?thesis by (simp add: sint_uint)
qed

lemma close_fd_inv:
  assumes inv: "fd_inv s" and res: "file_system_close_file fd s = (e, s')"
  shows "fd_inv s'"
proof (cases "e = 0")
  case False
  then have "s' = s" using res
    by (auto simp add: file_system_close_file_def split: if_splits option.splits)
  then show ?thesis using inv by simp
next
  case True
  then obtain idx where fd: "fd \<noteq> 0" "fd < 64" and fa: "file_array s (unat fd) = Some idx"
    and s': "s' = s\<lparr>file_list := (file_list s)[idx := (file_list s ! idx)\<lparr>opened := False\<rparr>],
                        file_array := (file_array s)(unat fd := None),
                        fd_bitmap := mark_fd_as_unused (sint fd) (fd_bitmap s)\<rparr>"
    using res by (auto simp add: file_system_close_file_def split: if_splits option.splits)
  from inv have len: "length (fd_bitmap s) = 8" and b0: "fd_bit (fd_bitmap s) 0"
    and tab: "\<And>d i. file_array s d = Some i \<Longrightarrow>
         2 \<le> d \<and> d < 64 \<and> i < length (file_list s) \<and> opened (file_list s ! i) \<and>
         fd_bit (fd_bitmap s) (d - 1)"
    and inj: "\<And>d d' i. file_array s d = Some i \<Longrightarrow> file_array s d' = Some i \<Longrightarrow> d = d'"
    unfolding fd_inv_def by blast+
  let ?d = "unat fd"
  from tab[OF fa] have d: "2 \<le> ?d" "?d < 64" by simp_all
  have bm: "fd_bitmap s' = mark_fd_as_unused (int ?d) (fd_bitmap s)"
    using s' sint_small[OF fd(2)] by simp
  have bit: "\<And>k. k < 64 \<Longrightarrow> fd_bit (fd_bitmap s') k = (k \<noteq> ?d - 1 \<and> fd_bit (fd_bitmap s) k)"
    unfolding bm using mark_fd_as_unused_spec[of ?d "fd_bitmap s"] d len by simp
  show ?thesis unfolding fd_inv_def
  proof (intro conjI allI impI)
    show "length (fd_bitmap s') = 8" using bm len by simp
    show "fd_bit (fd_bitmap s') 0" using bit[of 0] b0 d by simp
  next
    fix d' i assume "file_array s' d' = Some i"
    then have a: "file_array s d' = Some i" and ne: "d' \<noteq> ?d" using s' by (auto split: if_splits)
    from tab[OF a] show "2 \<le> d'" "d' < 64" by simp_all
    from tab[OF a] show "i < length (file_list s')" using s' by simp
    have "i \<noteq> idx" using inj[of d' i "unat fd"] a fa ne by blast
    with tab[OF a] show "opened (file_list s' ! i)" using s' by simp
    from tab[OF a] have "d' - 1 < 64" "fd_bit (fd_bitmap s) (d' - 1)" "d' - 1 \<noteq> ?d - 1"
      using ne d by auto
    then show "fd_bit (fd_bitmap s') (d' - 1)" using bit by simp
  next
    fix d1 d2 i assume "file_array s' d1 = Some i" "file_array s' d2 = Some i"
    then show "d1 = d2" using s' inj by (auto split: if_splits)
  qed
qed

lemma step_fd_inv: "step s s' \<Longrightarrow> fd_inv s \<Longrightarrow> fd_inv s'"
proof (induction rule: step.induct)
  case (step_open name junk mode s fd s')
  then show ?case using open_fd_inv by blast
next
  case (step_write sz data fd offset s r s')
  from write_table[OF step_write(2)] step_write(3) show ?case using fd_inv_cong by blast
next
  case (step_read fd sz offset s r bytes s')
  from read_frame[OF step_read(1)] obtain st where "s' = s\<lparr>blocks := st\<rparr>" by blast
  then show ?case using step_read(2) fd_inv_cong[of s s'] by simp
next
  case (step_close fd s e s')
  then show ?case using close_fd_inv by blast
qed

lemma steps_fd_inv: "step\<^sup>*\<^sup>* s s' \<Longrightarrow> fd_inv s \<Longrightarrow> fd_inv s'"
  by (induction rule: rtranclp_induct) (auto intro: step_fd_inv)

lemma reachable_fd_inv: "reachable dev s \<Longrightarrow> fd_inv s"
  unfolding reachable_def using steps_fd_inv fd_inv_initialize by blast

text \<open>
  C7. In every state reachable from \<^verbatim>\<open>initialize_file_system\<close>, on any block device, and for
  every descriptor \<open>d\<close> from 1 to 63: when slot \<open>d\<close> of the table is in use it points to a
  record of the list whose \<open>opened\<close> flag is set, and the bitmap bit of \<open>d\<close> is set; and
  when the bitmap bit of \<open>d\<close> is clear, slot \<open>d\<close> is empty. The bit of descriptor \<open>d\<close> is
  the bit the code sets when it hands out \<open>d\<close> and clears when it releases \<open>d\<close>, bit
  \<open>d - 1\<close>.
\<close>

theorem descriptor_table_invariant:
  assumes "reachable dev s" and "1 \<le> d" and "d < MAX_NUM_FD"
  shows "(\<forall>idx. file_array s d = Some idx \<longrightarrow>
            idx < length (file_list s) \<and> opened (file_list s ! idx) \<and> desc_bit s d) \<and>
         (\<not> desc_bit s d \<longrightarrow> file_array s d = None)"
proof -
  from reachable_fd_inv[OF assms(1)]
  have tab: "\<And>i. file_array s d = Some i \<Longrightarrow>
         i < length (file_list s) \<and> opened (file_list s ! i) \<and> fd_bit (fd_bitmap s) (d - 1)"
    unfolding fd_inv_def by blast
  then show ?thesis unfolding desc_bit_def by (cases "file_array s d") auto
qed

lemma reachable_fresh: "reachable blank fresh"
  unfolding reachable_def fresh_def by blast

lemma reachable_after_open: "reachable blank after_open"
proof -
  have v: "valid_name [0x61]" by (simp add: valid_name_def)
  have "step fresh after_open" unfolding after_open_def
    by (rule step_open[OF v, of False 1 fresh "fst (file_system_open_file False [0x61] 1 fresh)"]) simp
  then show ?thesis using reachable_fresh unfolding reachable_def
    by (meson rtranclp.rtrancl_into_rtrancl)
qed

lemma after_open_slot: "file_array after_open 2 = Some 0"
  unfolding after_open_def fresh_def by code_simp

theorem descriptor_table_invariant_witness:
  "file_array after_open 2 = Some 0 \<and> 0 < length (file_list after_open) \<and>
   opened (file_list after_open ! 0) \<and> desc_bit after_open 2"
  using descriptor_table_invariant[OF reachable_after_open, of 2] after_open_slot by simp

text \<open>
  C8. In every reachable state, open returns 0 or a descriptor from 2 to 63; it never
  returns 1, the value that belongs to the bit that \<^verbatim>\<open>initialize_file_system\<close> sets.
\<close>

theorem open_descriptor_range:
  assumes "reachable dev s" and "file_system_open_file junk name mode s = (fd, s')"
  shows "(fd = 0 \<or> (2 \<le> fd \<and> fd < MAX_NUM_FD)) \<and> fd \<noteq> 1"
proof -
  from open_fd_inv[OF reachable_fd_inv[OF assms(1)] assms(2)]
  have "fd = 0 \<or> (2 \<le> fd \<and> fd < 64)" by simp
  then show ?thesis by (auto simp add: word_le_nat_alt)
qed

lemma fresh_open_fd: "fst (file_system_open_file False [0x61] FILE_OPEN_CREATE_MODE fresh) = 2"
  unfolding fresh_def by code_simp

theorem open_descriptor_range_witness:
  "fst (file_system_open_file False [0x61] FILE_OPEN_CREATE_MODE fresh) = 2 \<and>
   fst (file_system_open_file False [0x61] FILE_OPEN_CREATE_MODE fresh) < MAX_NUM_FD"
  using open_descriptor_range[OF reachable_fresh, of False "[0x61]" 1
      "fst (file_system_open_file False [0x61] 1 fresh)"
      "snd (file_system_open_file False [0x61] 1 fresh)"] fresh_open_fd
  by simp

lemma scan_returns_max:
  assumes "length bm = 8" and "fst (get_unused_fd bm) = 64"
  shows "get_unused_fd bm = (64, set_fd_bit bm 63) \<and> \<not> fd_bit bm 63 \<and> (\<forall>k<63. fd_bit bm k)"
proof -
  obtain ret bm' where g: "get_unused_fd bm = (ret, bm')" by (cases "get_unused_fd bm")
  with assms(2) have r: "ret = 64" by simp
  from get_unused_fd_spec[OF g assms(1)] r show ?thesis using g by auto
qed

lemma install_fd_exhausted:
  assumes "length (fd_bitmap s) = 8" and "fst (get_unused_fd (fd_bitmap s)) = 64"
  shows "install_fd idx s = (0, s\<lparr>fd_bitmap := set_fd_bit (fd_bitmap s) 63\<rparr>)"
  using scan_returns_max[OF assms] by (simp add: install_fd_def Let_def)

lemma install_fd_bitmap:
  assumes "install_fd idx s = (fd, s')" and "length (fd_bitmap s) = 8"
  shows "fd_bitmap s' = fd_bitmap s \<or> (\<exists>k<64. fd_bitmap s' = set_fd_bit (fd_bitmap s) k)"
proof -
  have "k < 63 \<Longrightarrow> k < 64" for k :: nat by simp
  with install_fd_cases[OF assms] show ?thesis
    by (elim disjE conjE exE) (simp, (rule disjI2, rule exI[of _ 63], simp),
         (rule disjI2, rule exI, rule conjI, blast, simp)+)
qed

lemma open_bitmap:
  assumes "file_system_open_file junk name mode s = (fd, s')" and "length (fd_bitmap s) = 8"
  shows "fd_bitmap s' = fd_bitmap s \<or> (\<exists>k<64. fd_bitmap s' = set_fd_bit (fd_bitmap s) k)"
proof -
  let ?f = "new_file junk name"
  obtain ret f' s1 where add: "add_file_to_directory ?f s = (ret, f', s1)"
    by (cases "add_file_to_directory ?f s")
  note fr = add_file_frame[OF add]
  have "s' = s \<or> (\<exists>idx. install_fd idx s = (fd, s')) \<or>
      install_fd (length (file_list s1)) (s1\<lparr>file_list := file_list s1 @ [f']\<rparr>) = (fd, s')"
    using assms(1) add
    by (auto simp add: file_system_open_file_def split: if_splits option.splits)
  then show ?thesis
  proof (elim disjE exE)
    assume "s' = s" then show ?thesis by simp
  next
    fix idx assume "install_fd idx s = (fd, s')"
    from install_fd_bitmap[OF this assms(2)] show ?thesis .
  next
    assume i: "install_fd (length (file_list s1)) (s1\<lparr>file_list := file_list s1 @ [f']\<rparr>) = (fd, s')"
    have "length (fd_bitmap (s1\<lparr>file_list := file_list s1 @ [f']\<rparr>)) = 8" using fr assms(2) by simp
    from install_fd_bitmap[OF i this] show ?thesis using fr by simp
  qed
qed

lemma step_keeps_last_bit:
  assumes "step s s'" and "length (fd_bitmap s) = 8 \<and> fd_bit (fd_bitmap s) 63"
  shows "length (fd_bitmap s') = 8 \<and> fd_bit (fd_bitmap s') 63"
  using assms
proof (induction rule: step.induct)
  case (step_open name junk mode s fd s')
  from open_bitmap[OF step_open(2)] step_open(3) show ?case
    by (auto simp add: fd_bit_set)
next
  case (step_write sz data fd offset s r s')
  from write_table[OF step_write(2)] step_write(3) show ?case by simp
next
  case (step_read fd sz offset s r bytes s')
  from read_frame[OF step_read(1)] step_read(2) show ?case by auto
next
  case (step_close fd s e s')
  show ?case
  proof (cases "e = 0")
    case False
    then have "s' = s" using step_close(1)
      by (auto simp add: file_system_close_file_def split: if_splits option.splits)
    then show ?thesis using step_close(2) by simp
  next
    case True
    then have fd: "fd \<noteq> 0" "fd < 64"
      and bm: "fd_bitmap s' = mark_fd_as_unused (sint fd) (fd_bitmap s)"
      using step_close(1)
      by (auto simp add: file_system_close_file_def split: if_splits option.splits)
    have d: "1 \<le> unat fd" "unat fd \<le> 64" "unat fd - 1 \<noteq> 63"
      using fd by (simp_all add: word_less_nat_alt unat_gt_0 Suc_le_eq)
    show ?thesis unfolding bm sint_small[OF fd(2)]
      using mark_fd_as_unused_spec[OF d(1,2), of "fd_bitmap s" 63] d(3) step_close(2) by simp
  qed
qed

lemma steps_keep_last_bit:
  "step\<^sup>*\<^sup>* s s' \<Longrightarrow> length (fd_bitmap s) = 8 \<and> fd_bit (fd_bitmap s) 63 \<Longrightarrow>
     length (fd_bitmap s') = 8 \<and> fd_bit (fd_bitmap s') 63"
  by (induction rule: rtranclp_induct) (auto dest: step_keeps_last_bit)

text \<open>
  C9. When the scan of the bitmap returns \<open>MAX_NUM_FD\<close>, which it does when all bits but
  the last are set, an open that gets as far as the scan returns 0, and the last bit, clear
  before the call, is set after it. No later open, write, read or close clears it.
\<close>

theorem exhausted_open_consumes_slot:
  assumes "length (fd_bitmap s) = 8"
    and "fst (get_unused_fd (fd_bitmap s)) = MAX_NUM_FD"
    and "open_resolves junk name mode s"
    and "file_system_open_file junk name mode s = (fd, s')"
  shows "fd = 0 \<and> (\<forall>k<63. fd_bit (fd_bitmap s) k) \<and> \<not> fd_bit (fd_bitmap s) 63 \<and>
         fd_bitmap s' = set_fd_bit (fd_bitmap s) 63 \<and> fd_bit (fd_bitmap s') 63 \<and>
         (\<forall>s''. step\<^sup>*\<^sup>* s' s'' \<longrightarrow> fd_bit (fd_bitmap s'') 63)"
proof -
  note sc = scan_returns_max[OF assms(1,2)]
  let ?f = "new_file junk name"
  obtain ret f' s1 where add: "add_file_to_directory ?f s = (ret, f', s1)"
    by (cases "add_file_to_directory ?f s")
  note fr = add_file_frame[OF add]
  let ?s2 = "s1\<lparr>file_list := file_list s1 @ [f']\<rparr>"
  have bm2: "fd_bitmap ?s2 = fd_bitmap s" using fr by simp
  have "(\<exists>idx. install_fd idx s = (fd, s')) \<or>
      install_fd (length (file_list s1)) ?s2 = (fd, s')"
    using assms(3,4) add
    by (auto simp add: open_resolves_def file_system_open_file_def split: if_splits option.splits)
  then have res: "fd = 0 \<and> fd_bitmap s' = set_fd_bit (fd_bitmap s) 63"
  proof (elim disjE exE)
    fix idx assume "install_fd idx s = (fd, s')"
    then show ?thesis using install_fd_exhausted[OF assms(1,2), of idx] by auto
  next
    assume "install_fd (length (file_list s1)) ?s2 = (fd, s')"
    moreover have "length (fd_bitmap ?s2) = 8" "fst (get_unused_fd (fd_bitmap ?s2)) = 64"
      using assms(1,2) bm2 by simp_all
    ultimately show ?thesis using install_fd_exhausted[of ?s2 "length (file_list s1)"] bm2 by auto
  qed
  then have b: "length (fd_bitmap s') = 8 \<and> fd_bit (fd_bitmap s') 63"
    using assms(1) by (simp add: fd_bit_set)
  then have "\<forall>s''. step\<^sup>*\<^sup>* s' s'' \<longrightarrow> fd_bit (fd_bitmap s'') 63"
    using steps_keep_last_bit by blast
  with res b sc show ?thesis by simp
qed

lemma exhausted_scan: "fst (get_unused_fd (fd_bitmap exhausted)) = 64"
  unfolding exhausted_def boot_def by code_simp

theorem exhausted_open_consumes_slot_witness:
  "fst (file_system_open_file False [0x61] FILE_OPEN_MODE exhausted) = 0 \<and>
   \<not> fd_bit (fd_bitmap exhausted) 63 \<and>
   fd_bit (fd_bitmap (snd (file_system_open_file False [0x61] FILE_OPEN_MODE exhausted))) 63"
proof -
  have 1: "length (fd_bitmap exhausted) = 8" by (simp add: exhausted_def)
  have 3: "open_resolves False [0x61] 0 exhausted"
    by (simp add: open_resolves_def exhausted_def boot_def c_string_def)
  show ?thesis
    using exhausted_open_consumes_slot[OF 1 exhausted_scan 3,
      of "fst (file_system_open_file False [0x61] 0 exhausted)"
         "snd (file_system_open_file False [0x61] 0 exhausted)"]
    by (elim meta_impE conjE) simp_all
qed

subsection \<open>Allocation\<close>

lemma tail_blocked_iff:
  "tail_blocked fl sb nb needed =
     (\<exists>g\<in>set fl. sb + nb \<le> start_block g \<and> start_block g < sb + nb + needed)"
  by (induction fl) auto

lemma unat_add2:
  "unat (a::u32) + unat b < 2 ^ 32 \<Longrightarrow> unat (a + b) = unat a + unat b"
  using unat_add_lem[of a b] by simp

lemma unat_add3:
  "unat (a::u32) + unat b + unat c < 2 ^ 32 \<Longrightarrow> unat (a + b + c) = unat a + unat b + unat c"
  using unat_add2[of a b] unat_add2[of "a + b" c] by simp

text \<open>
  C4, as amended. For a record that owns blocks and a request of \<open>needed\<close> more, where
  start block, block count and \<open>needed\<close> add up inside the 32-bit range:
  \<^verbatim>\<open>expand_existing_file\<close> fails with \<open>ERR_FOUND\<close> exactly when another record starts in the
  \<open>needed\<close> blocks after the extent, or the end of these blocks is greater than or equal
  to \<open>partition_num_blocks\<close>; a failure leaves the state as it is; otherwise the call
  returns 0 and adds \<open>needed\<close> to the block count of the record.
\<close>

theorem expand_existing_failure_condition:
  assumes idx: "idx < length (file_list s)"
    and nb: "num_blocks (file_list s ! idx) \<noteq> 0" and needed: "needed \<noteq> 0"
    and nowrap: "extent_end (file_list s ! idx) + unat needed < 2 ^ 32"
  shows "(fst (expand_existing_file idx needed s) = ERR_FOUND \<longleftrightarrow>
            other_in_tail (file_list s) idx (unat needed) \<or>
            unat (partition_num_blocks s) \<le> extent_end (file_list s ! idx) + unat needed) \<and>
         (fst (expand_existing_file idx needed s) = ERR_FOUND \<longrightarrow>
            snd (expand_existing_file idx needed s) = s) \<and>
         (fst (expand_existing_file idx needed s) \<noteq> ERR_FOUND \<longrightarrow>
            fst (expand_existing_file idx needed s) = 0 \<and>
            file_list (snd (expand_existing_file idx needed s)) =
              (file_list s)[idx := (file_list s ! idx)
                 \<lparr>num_blocks := num_blocks (file_list s ! idx) + needed\<rparr>] \<and>
            unat (num_blocks (file_list s ! idx) + needed) =
              unat (num_blocks (file_list s ! idx)) + unat needed)"
proof -
  let ?f = "file_list s ! idx"
  let ?a = "start_block ?f + num_blocks ?f"
  from nowrap have w2: "unat (start_block ?f) + unat (num_blocks ?f) < 2 ^ 32"
    and w3: "unat (start_block ?f) + unat (num_blocks ?f) + unat needed < 2 ^ 32"
    and w4: "unat (num_blocks ?f) + unat needed < 2 ^ 32"
    by (simp_all add: extent_end_def)
  have a: "unat ?a = extent_end ?f" using unat_add2[OF w2] by (simp add: extent_end_def)
  have an: "unat (?a + needed) = extent_end ?f + unat needed"
    using unat_add3[OF w3] by (simp add: extent_end_def)
  have nbpos: "0 < unat (num_blocks ?f)" using nb by (simp add: unat_gt_0)
  have blocked: "tail_blocked (file_list s) (start_block ?f) (num_blocks ?f) needed =
      other_in_tail (file_list s) idx (unat needed)"
  proof
    assume "tail_blocked (file_list s) (start_block ?f) (num_blocks ?f) needed"
    then obtain g where g: "g \<in> set (file_list s)" "?a \<le> start_block g" "start_block g < ?a + needed"
      unfolding tail_blocked_iff by blast
    from g(1) obtain j where j: "j < length (file_list s)" "file_list s ! j = g"
      by (auto simp add: in_set_conv_nth)
    have le: "extent_end ?f \<le> unat (start_block g)" using g(2) a by (simp add: word_le_nat_alt)
    have lt: "unat (start_block g) < extent_end ?f + unat needed"
      using g(3) an by (simp add: word_less_nat_alt)
    have "j \<noteq> idx"
    proof
      assume "j = idx"
      then have "g = ?f" using j by simp
      then show False using le nbpos by (simp add: extent_end_def)
    qed
    then show "other_in_tail (file_list s) idx (unat needed)"
      unfolding other_in_tail_def using j le lt by blast
  next
    assume "other_in_tail (file_list s) idx (unat needed)"
    then obtain j where j: "j < length (file_list s)"
      "extent_end ?f \<le> unat (start_block (file_list s ! j))"
      "unat (start_block (file_list s ! j)) < extent_end ?f + unat needed"
      unfolding other_in_tail_def by blast
    have "file_list s ! j \<in> set (file_list s)" using j(1) by simp
    moreover have "?a \<le> start_block (file_list s ! j)" using j(2) a by (simp add: word_le_nat_alt)
    moreover have "start_block (file_list s ! j) < ?a + needed"
      using j(3) an by (simp add: word_less_nat_alt)
    ultimately show "tail_blocked (file_list s) (start_block ?f) (num_blocks ?f) needed"
      unfolding tail_blocked_iff by blast
  qed
  have full: "(?a + needed \<ge> partition_num_blocks s) =
      (unat (partition_num_blocks s) \<le> extent_end ?f + unat needed)"
    using an by (simp add: word_le_nat_alt)
  have sum: "unat (num_blocks ?f + needed) = unat (num_blocks ?f) + unat needed"
    using unat_add2[OF w4] .
  show ?thesis
    unfolding expand_existing_file_def Let_def blocked full using sum by simp
qed

lemma last_block_files:
  "file_list last_block = [\<lparr>filename = [0x61], start_block = 2, num_blocks = 1,
      fsize = 512, dir_data_off = 6, opened = True\<rparr>]"
  "partition_num_blocks last_block = 4"
  by (simp_all add: last_block_def boot_def)

theorem expand_existing_failure_condition_witness:
  "fst (expand_existing_file 0 1 last_block) = ERR_FOUND \<and>
   snd (expand_existing_file 0 1 last_block) = last_block \<and>
   \<not> other_in_tail (file_list last_block) 0 1"
proof -
  have 1: "0 < length (file_list last_block)" by (simp add: last_block_files)
  have 2: "num_blocks (file_list last_block ! 0) \<noteq> 0" by (simp add: last_block_files)
  have 3: "(1::u32) \<noteq> 0" by simp
  have 4: "extent_end (file_list last_block ! 0) + unat (1::u32) < 2 ^ 32"
    by (simp add: last_block_files extent_end_def)
  have 5: "unat (partition_num_blocks last_block) \<le> extent_end (file_list last_block ! 0) + unat (1::u32)"
    by (simp add: last_block_files extent_end_def)
  have 6: "\<not> other_in_tail (file_list last_block) 0 1"
    by (simp add: last_block_files other_in_tail_def)
  from expand_existing_failure_condition[OF 1 2 3 4] 5 6 show ?thesis by simp
qed

text \<open>
  C4 as stated lets the expansion succeed when the new blocks end exactly at
  \<open>partition_num_blocks\<close>. In a partition of 4 blocks, a record that owns block 2 asks for
  one more block: no other record starts in the tail, the tail ends at block 4 and does not
  pass the partition, and the call fails.
\<close>

theorem expand_existing_counterexample:
  "fst (expand_existing_file 0 1 last_block) = ERR_FOUND \<and>
   \<not> other_in_tail (file_list last_block) 0 (unat (1::u32)) \<and>
   \<not> unat (partition_num_blocks last_block) < extent_end (file_list last_block ! 0) + unat (1::u32)"
  by (simp add: expand_existing_file_def Let_def last_block_files other_in_tail_def extent_end_def)

lemma extent_disjoint:
  assumes "num_blocks a \<noteq> 0" "num_blocks b \<noteq> 0" "extent a \<inter> extent b = {}"
  shows "extent_end a \<le> unat (start_block b) \<or> extent_end b \<le> unat (start_block a)"
proof (rule ccontr)
  assume "\<not> ?thesis"
  then have lt: "unat (start_block b) < extent_end a" "unat (start_block a) < extent_end b" by simp_all
  have pa: "unat (start_block a) < extent_end a" and pb: "unat (start_block b) < extent_end b"
    using assms(1,2) by (simp_all add: extent_end_def unat_gt_0)
  let ?m = "max (unat (start_block a)) (unat (start_block b))"
  have "?m \<in> extent a" "?m \<in> extent b" using lt pa pb by (auto simp add: extent_def)
  with assms(3) show False by blast
qed


lemma last_end_max:
  assumes "disjoint_extents (pre @ fl)" and "\<forall>f\<in>set (pre @ fl). placed f"
    and "unat sb = max_end pre"
  shows "unat (last_end fl sb) = max_end (pre @ fl)"
  using assms
proof (induction fl arbitrary: pre sb)
  case Nil
  then show ?case by simp
next
  case (Cons f fl)
  let ?sb' = "(if start_block f \<ge> sb then start_block f + num_blocks f else sb)"
  have pf: "placed f" using Cons.prems(2) by simp
  then have wrap: "unat (start_block f + num_blocks f) = extent_end f"
    using unat_add2[of "start_block f" "num_blocks f"] by (simp add: placed_def extent_end_def)
  have fin: "finite (insert 2 (extent_end ` set pre))" by simp
  have "insert 2 (extent_end ` set (pre @ [f])) = insert (extent_end f) (insert 2 (extent_end ` set pre))"
    by auto
  moreover have "Max (insert (extent_end f) (insert 2 (extent_end ` set pre))) =
      max (extent_end f) (Max (insert 2 (extent_end ` set pre)))"
    by (rule Max_insert) simp_all
  ultimately have step: "max_end (pre @ [f]) = max (max_end pre) (extent_end f)"
    unfolding max_end_def by (simp only: max.commute)
  have "unat ?sb' = max_end (pre @ [f])"
  proof (cases "start_block f \<ge> sb")
    case True
    then have "max_end pre \<le> unat (start_block f)" using Cons.prems(3) by (simp add: word_le_nat_alt)
    then have "max_end pre \<le> extent_end f" by (simp add: extent_end_def)
    then show ?thesis using True wrap step by simp
  next
    case False
    then have lt: "unat (start_block f) < max_end pre" using Cons.prems(3) by (simp add: word_le_nat_alt)
    have "extent_end f \<le> max_end pre"
    proof (cases "num_blocks f = 0")
      case True
      then show ?thesis using lt by (simp add: extent_end_def)
    next
      case nf: False
      with pf have s2: "2 \<le> unat (start_block f)" by (simp add: placed_def)
      have "max_end pre \<in> insert 2 (extent_end ` set pre)"
        unfolding max_end_def by (rule Max_in) simp_all
      then obtain g where g: "g \<in> set pre" "extent_end g = max_end pre" using lt s2 by auto
      then obtain i where i: "i < length pre" "pre ! i = g" by (auto simp add: in_set_conv_nth)
      have pg: "placed g" using Cons.prems(2) g(1) by simp
      have ng: "num_blocks g \<noteq> 0"
      proof
        assume "num_blocks g = 0"
        with pg have "extent_end g = 0" by (simp add: placed_def extent_end_def)
        with g(2) lt show False by simp
      qed
      have e1: "i < length (pre @ f # fl)" "length pre < length (pre @ f # fl)" "i \<noteq> length pre"
        using i(1) by simp_all
      have e2: "(pre @ f # fl) ! i = g" "(pre @ f # fl) ! length pre = f"
        using i by (simp_all add: nth_append)
      from Cons.prems(1) have "\<And>i j. i < length (pre @ f # fl) \<Longrightarrow> j < length (pre @ f # fl) \<Longrightarrow>
          i \<noteq> j \<Longrightarrow> num_blocks ((pre @ f # fl) ! i) \<noteq> 0 \<Longrightarrow> num_blocks ((pre @ f # fl) ! j) \<noteq> 0 \<Longrightarrow>
          extent ((pre @ f # fl) ! i) \<inter> extent ((pre @ f # fl) ! j) = {}"
        unfolding disjoint_extents_def by blast
      from this[OF e1] have "extent g \<inter> extent f = {}" using ng nf by (simp add: e2)
      from extent_disjoint[OF ng nf this] lt g(2) have "extent_end f \<le> unat (start_block g)" by simp
      also have "\<dots> \<le> extent_end g" by (simp add: extent_end_def)
      finally show ?thesis using g(2) by simp
    qed
    then show ?thesis using False step Cons.prems(3) by simp
  qed
  moreover have "disjoint_extents ((pre @ [f]) @ fl)" "\<forall>f\<in>set ((pre @ [f]) @ fl). placed f"
    using Cons.prems(1,2) by simp_all
  ultimately have "unat (last_end fl ?sb') = max_end ((pre @ [f]) @ fl)"
    using Cons.IH[of "pre @ [f]" ?sb'] by blast
  then show ?case by simp
qed


text \<open>
  C3. On a file list that satisfies the invariants of the data model (extents disjoint,
  records placed in the data area, no extent over the 32-bit range), and while the new
  extent stays in the 32-bit range: the start block \<^verbatim>\<open>expand_empty_file\<close> chooses is the
  maximum of \<open>DIR_DATA_NUM_BLOCKS\<close> and of the ends of all records; the call fails with
  \<open>ERR_FOUND\<close>, and changes nothing, exactly when this start block plus \<open>needed\<close> is greater
  than or equal to \<open>partition_num_blocks\<close>; otherwise it returns 0, zeroes the blocks and
  sets the start block and the block count of the record.
\<close>

theorem allocate_empty_placement:
  assumes "disjoint_extents (file_list s)" and "\<forall>f\<in>set (file_list s). placed f"
    and "max_end (file_list s) + unat needed < 2 ^ 32"
  shows "unat (last_end (file_list s) DIR_DATA_NUM_BLOCKS) = max_end (file_list s) \<and>
     expand_empty_file idx needed s =
       (if unat (partition_num_blocks s) \<le> max_end (file_list s) + unat needed
        then (ERR_FOUND, s)
        else (0, s\<lparr>blocks := zero_out (last_end (file_list s) DIR_DATA_NUM_BLOCKS) needed (blocks s),
                   file_list := (file_list s)[idx := (file_list s ! idx)
                      \<lparr>start_block := last_end (file_list s) DIR_DATA_NUM_BLOCKS,
                       num_blocks := needed\<rparr>]\<rparr>))"
proof -
  have "max_end [] = 2" by (simp add: max_end_def)
  with last_end_max[of "[]" "file_list s" 2] assms(1,2)
  have m: "unat (last_end (file_list s) 2) = max_end (file_list s)" by simp
  then have "unat (last_end (file_list s) 2 + needed) = max_end (file_list s) + unat needed"
    using unat_add2[of "last_end (file_list s) 2" needed] assms(3) by simp
  then have "(partition_num_blocks s \<le> last_end (file_list s) 2 + needed) =
     (unat (partition_num_blocks s) \<le> max_end (file_list s) + unat needed)"
    by (simp add: word_le_nat_alt)
  then show ?thesis using m by (simp add: expand_empty_file_def Let_def)
qed

lemma two_files_list:
  "file_list two_files =
      [\<lparr>filename = [0x61], start_block = 0, num_blocks = 0, fsize = 0, dir_data_off = 6,
        opened = True\<rparr>,
       \<lparr>filename = [0x62], start_block = 2, num_blocks = 3, fsize = 1500, dir_data_off = 22,
        opened = False\<rparr>]"
  "partition_num_blocks two_files = 390"
  by (simp_all add: two_files_def boot_def)

lemma two_files_max_end: "max_end (file_list two_files) = 5"
  by (simp add: two_files_list max_end_def extent_end_def)

theorem allocate_empty_placement_witness:
  "fst (expand_empty_file 0 2 two_files) = 0 \<and>
   start_block (file_list (snd (expand_empty_file 0 2 two_files)) ! 0) = 5 \<and>
   num_blocks (file_list (snd (expand_empty_file 0 2 two_files)) ! 0) = 2"
proof -
  have 1: "disjoint_extents (file_list two_files)"
    by (simp add: disjoint_extents_def two_files_list less_Suc_eq)
  have 2: "\<forall>f\<in>set (file_list two_files). placed f"
    by (simp add: two_files_list placed_def extent_end_def)
  have 3: "max_end (file_list two_files) + unat (2::u32) < 2 ^ 32"
    by (simp add: two_files_max_end)
  from allocate_empty_placement[OF 1 2 3, of 0]
  have "unat (last_end (file_list two_files) 2) = 5" and
    e: "expand_empty_file 0 2 two_files =
       (0, two_files\<lparr>blocks := zero_out (last_end (file_list two_files) 2) 2 (blocks two_files),
                   file_list := (file_list two_files)[0 := (file_list two_files ! 0)
                      \<lparr>start_block := last_end (file_list two_files) 2,
                       num_blocks := 2\<rparr>]\<rparr>)"
    by (simp_all add: two_files_max_end two_files_list(2))
  then have "last_end (file_list two_files) 2 = 5" by (simp add: word_unat_eq_iff)
  then show ?thesis unfolding e by (simp add: two_files_list)
qed

subsection \<open>The directory\<close>






lemma length_le [simp]: "length (le16 w) = 2" "length (le32 v) = 4"
  by (simp_all add: le16_def le32_def)


lemma length_store_bytes [simp]:
  "off + length src \<le> length buf \<Longrightarrow> length (store_bytes off src buf) = length buf"
  by (simp add: store_bytes_def)


lemma take_store_bytes:
  "off + length src \<le> length buf \<Longrightarrow> n \<le> off \<Longrightarrow> take n (store_bytes off src buf) = take n buf"
  by (simp add: store_bytes_def)

lemma drop_store_bytes:
  "off + length src \<le> length buf \<Longrightarrow> off + length src \<le> n \<Longrightarrow>
     drop n (store_bytes off src buf) = drop n buf"
  by (simp add: store_bytes_def)


lemma length_record_bytes [simp]: "length (record_bytes f) = record_size f"
  by (simp add: record_bytes_def record_size_def)


lemma encoded_cong:
  assumes "take (dir_data_off f + record_size f) dd' = take (dir_data_off f + record_size f) dd"
  shows "encoded dd' f = encoded dd f"
proof -
  have "take (record_size f) (drop (dir_data_off f) d) =
      drop (dir_data_off f) (take (dir_data_off f + record_size f) d)" for d :: "byte list"
    by (simp add: drop_take)
  then show ?thesis unfolding encoded_def using assms by simp
qed


lemma encoded_store_after:
  assumes "off + length src \<le> length dd" and "dir_data_off f + record_size f \<le> off"
  shows "encoded (store_bytes off src dd) f = encoded dd f"
  by (rule encoded_cong) (use assms in \<open>simp add: take_store_bytes\<close>)

lemma encoded_store_before:
  assumes "off + length src \<le> length dd" and "off + length src \<le> dir_data_off f"
  shows "encoded (store_bytes off src dd) f = encoded dd f"
  unfolding encoded_def using assms
  by (simp add: store_bytes_def)



lemma dir_end_append [simp]: "dir_end off (fl @ [f]) = dir_end off fl + record_size f"
  by (induction fl arbitrary: off) simp_all

lemma layout_append [simp]:
  "layout off (fl @ [f]) = (layout off fl \<and> dir_data_off f = dir_end off fl)"
  by (induction fl arbitrary: off) auto







subsection \<open>The file list\<close>





























lemma closed_fields [simp]:
  "filename (closed f) = filename f" "start_block (closed f) = start_block f"
  "num_blocks (closed f) = num_blocks f" "fsize (closed f) = fsize f"
  "dir_data_off (closed f) = dir_data_off f" "opened (closed f) = False"
  by (simp_all add: closed_def)

lemma closed_preds [simp]:
  "extent_end (closed f) = extent_end f" "extent (closed f) = extent f"
  "placed (closed f) = placed f" "file_ok (closed f) = file_ok f"
  "record_size (closed f) = record_size f"
  by (simp_all add: extent_end_def extent_def placed_def file_ok_def record_size_def)





lemma closed_opened [simp]: "closed (f\<lparr>opened := b\<rparr>) = closed f"
  by (simp add: closed_def)




















end
